theory Spec2Isabelle
  imports Main "HOL-Library.Char_ord" "HOL-Library.List_Lexorder"
begin

section \<open>JavaScript strings\<close>

text \<open>
  A JavaScript string is modelled by the list of its code units, restricted to the
  units below 256 (the Latin-1 range), which is what \<^typ>\<open>char\<close> holds. Every
  character the code tests for (quotes, backslash, separators, ASCII letters) lies in
  this range.
\<close>

abbreviation dquote :: char where "dquote \<equiv> CHR 0x22"
abbreviation backslash :: char where "backslash \<equiv> CHR 0x5C"
abbreviation tab :: char where "tab \<equiv> CHR 0x09"
abbreviation newline :: char where "newline \<equiv> CHR 0x0A"

text \<open>White space as \<^verbatim>\<open>String.prototype.trim\<close> and the regex class \<^verbatim>\<open>\s\<close> see it.\<close>

definition isSpace :: "char \<Rightarrow> bool" where
  "isSpace c = (c \<in> {CHR 0x09, CHR 0x0A, CHR 0x0B, CHR 0x0C, CHR 0x0D, CHR 0x20, CHR 0xA0})"

definition trim :: "string \<Rightarrow> string" where
  "trim s = rev (dropWhile isSpace (rev (dropWhile isSpace s)))"

definition lowerChar :: "char \<Rightarrow> char" where
  "lowerChar c =
     (let n = (of_char c :: nat) in
      if (65 \<le> n \<and> n \<le> 90) \<or> (192 \<le> n \<and> n \<le> 222 \<and> n \<noteq> 215)
      then char_of (n + 32) else c)"

definition toLowerCase :: "string \<Rightarrow> string" where
  "toLowerCase s = map lowerChar s"

text \<open>\<^verbatim>\<open>s.split(c)\<close> for a one-character separator: never the empty array.\<close>

fun split :: "char \<Rightarrow> string \<Rightarrow> string list" where
  "split c [] = [[]]"
| "split c (x # xs) =
     (if x = c then [] # split c xs
      else (case split c xs of [] \<Rightarrow> [[x]] | w # ws \<Rightarrow> (x # w) # ws))"

definition startsWith :: "string \<Rightarrow> string \<Rightarrow> bool" where
  "startsWith s p = (take (length p) s = p)"

fun includesStr :: "string \<Rightarrow> string \<Rightarrow> bool" where
  "includesStr [] p = (p = [])"
| "includesStr (x # xs) p = (startsWith (x # xs) p \<or> includesStr xs p)"

fun join :: "string \<Rightarrow> string list \<Rightarrow> string" where
  "join sep [] = []"
| "join sep [x] = x"
| "join sep (x # y # ys) = x @ sep @ join sep (y # ys)"

text \<open>\<^verbatim>\<open>s.replace(/c/g, r)\<close> for a one-character pattern.\<close>

definition replaceAll :: "char \<Rightarrow> string \<Rightarrow> string \<Rightarrow> string" where
  "replaceAll c r s = concat (map (\<lambda>x. if x = c then r else [x]) s)"

text \<open>Decimal rendering of an integer, as a template string or \<^verbatim>\<open>String(n)\<close> prints it.\<close>

definition digit :: "nat \<Rightarrow> char" where
  "digit d = ''0123456789'' ! d"

function show_nat :: "nat \<Rightarrow> string" where
  "show_nat n = (if n < 10 then [digit n] else show_nat (n div 10) @ [digit (n mod 10)])"
  by pat_completeness auto
termination
  by (relation "measure (\<lambda>n. n)") auto

definition show_int :: "int \<Rightarrow> string" where
  "show_int i = (if i < 0 then CHR ''-'' # show_nat (nat (- i)) else show_nat (nat i))"

section \<open>Locator model: \<^verbatim>\<open>PageElement\<close>\<close>

text \<open>\<^verbatim>\<open>LocatorInput = string | { using, value }\<close>; a bucket takes one input or an array.\<close>

datatype LocatorInput = Str string | Obj string string

datatype BucketInput = One LocatorInput | Many "LocatorInput list"

record PageElementOpts =
  opt_android :: "BucketInput option"
  opt_ios :: "BucketInput option"
  opt_universal :: "BucketInput option"

record PageElement =
  android :: "string list option"
  ios :: "string list option"
  universal :: "string list option"

datatype Platform = Android | IOS

text \<open>
  The two runtime flags of the WDIO \<^verbatim>\<open>driver\<close> global that \<^verbatim>\<open>getPlatform\<close> reads. A
  registered driver is \<open>Some\<close> of its flags, and the platform is unknown when neither flag
  is set. \<open>None\<close> stands for a \<^verbatim>\<open>driver\<close> binding that is itself falsy, which the guards
  of \<^verbatim>\<open>getPlatform\<close> also send to \<^verbatim>\<open>null\<close>.
\<close>

record DriverFlags =
  isAndroid :: bool
  isIOS :: bool

definition getPlatform :: "DriverFlags option \<Rightarrow> Platform option" where
  "getPlatform driver =
     (case driver of
        None \<Rightarrow> None
      | Some d \<Rightarrow> if isAndroid d then Some Android else if isIOS d then Some IOS else None)"

definition toAccId :: "string \<Rightarrow> string" where
  "toAccId v = ''~'' @ v"

definition toAndroidUIA :: "string \<Rightarrow> string" where
  "toAndroidUIA expr = ''android='' @ expr"

definition toIOSPredicate :: "string \<Rightarrow> string" where
  "toIOSPredicate pred = ''-ios predicate string:'' @ pred"

definition toIOSClassChain :: "string \<Rightarrow> string" where
  "toIOSClassChain chain = ''-ios class chain:'' @ chain"

definition toXPath :: "string \<Rightarrow> string" where
  "toXPath x = x"

definition normalizeOne :: "LocatorInput \<Rightarrow> string" where
  "normalizeOne loc =
     (case loc of
        Str s \<Rightarrow> trim s
      | Obj using val \<Rightarrow>
          (let u = toLowerCase (trim using) in
           if u = ''xpath'' then toXPath val
           else if u = ''accessibility id'' then toAccId val
           else if u = ''-android uiautomator'' \<or> u = ''android uiautomator'' then toAndroidUIA val
           else if u = ''-ios predicate string'' \<or> u = ''ios predicate string'' then toIOSPredicate val
           else if u = ''-ios class chain'' \<or> u = ''ios class chain'' then toIOSClassChain val
           else val))"

text \<open>\<^verbatim>\<open>filter(Boolean)\<close> drops the empty strings; an empty result is \<^verbatim>\<open>null\<close>.\<close>

definition normalizeList :: "BucketInput option \<Rightarrow> string list option" where
  "normalizeList val =
     (case val of
        None \<Rightarrow> None
      | Some v \<Rightarrow>
          (let arr = (case v of Many xs \<Rightarrow> xs | One x \<Rightarrow> [x]);
               mapped = filter (\<lambda>s. s \<noteq> []) (map normalizeOne arr)
           in if mapped \<noteq> [] then Some mapped else None))"

definition newPageElement :: "PageElementOpts option \<Rightarrow> PageElement" where
  "newPageElement opts =
     \<lparr> android = normalizeList (Option.bind opts opt_android),
       ios = normalizeList (Option.bind opts opt_ios),
       universal = normalizeList (Option.bind opts opt_universal) \<rparr>"

text \<open>The entries that \<^verbatim>\<open>out.push(...bucket)\<close> adds: none for \<^verbatim>\<open>null\<close>.\<close>

definition entries :: "string list option \<Rightarrow> string list" where
  "entries b = (case b of None \<Rightarrow> [] | Some xs \<Rightarrow> xs)"

definition selectors :: "DriverFlags option \<Rightarrow> PageElement \<Rightarrow> string list" where
  "selectors driver pe =
     (let plat = getPlatform driver in
      (if plat = Some Android then entries (android pe) else []) @
      (if plat = Some IOS then entries (ios pe) else []) @
      entries (universal pe))"

text \<open>\<^verbatim>\<open>bucket?.[0]\<close>: undefined for \<^verbatim>\<open>null\<close> and for the empty array.\<close>

definition first :: "string list option \<Rightarrow> string option" where
  "first b = (case entries b of [] \<Rightarrow> None | x # _ \<Rightarrow> Some x)"

text \<open>\<^verbatim>\<open>a ?? b\<close> on possibly-undefined values.\<close>

definition orElse :: "'a option \<Rightarrow> 'a option \<Rightarrow> 'a option" where
  "orElse a b = (case a of None \<Rightarrow> b | Some x \<Rightarrow> Some x)"

definition toSelector :: "DriverFlags option \<Rightarrow> PageElement \<Rightarrow> string option" where
  "toSelector driver pe =
     (case selectors driver pe of
        x # _ \<Rightarrow> Some x
      | [] \<Rightarrow> orElse (first (android pe)) (orElse (first (ios pe)) (first (universal pe))))"

text \<open>
  \<^verbatim>\<open>withFallbacks\<close> mutates the element. For each bucket whose option is truthy it first
  makes the bucket an array (\<^verbatim>\<open>||= []\<close>) and then spreads the normalized list into
  \<^verbatim>\<open>push\<close>; when that list is \<^verbatim>\<open>null\<close> the spread raises a TypeError, after the
  bucket was made an array and before the later buckets are looked at. The result is the
  element as the call leaves it and whether the call threw.
\<close>

definition truthy :: "BucketInput option \<Rightarrow> bool" where
  "truthy v = (case v of None \<Rightarrow> False | Some (One (Str s)) \<Rightarrow> s \<noteq> [] | Some _ \<Rightarrow> True)"

datatype JsError = TypeError | Error string

definition pushBucket :: "string list option \<Rightarrow> BucketInput option \<Rightarrow> JsError option \<times> string list option" where
  "pushBucket bucket inp =
     (if truthy inp then
        (case normalizeList inp of
           None \<Rightarrow> (Some TypeError, Some (entries bucket))
         | Some xs \<Rightarrow> (None, Some (entries bucket @ xs)))
      else (None, bucket))"

definition withFallbacks :: "PageElementOpts option \<Rightarrow> PageElement \<Rightarrow> JsError option \<times> PageElement" where
  "withFallbacks opts pe =
     (case pushBucket (android pe) (Option.bind opts opt_android) of
        (Some e, a) \<Rightarrow> (Some e, pe\<lparr>android := a\<rparr>)
      | (None, a) \<Rightarrow>
     (case pushBucket (ios pe) (Option.bind opts opt_ios) of
        (Some e, i) \<Rightarrow> (Some e, pe\<lparr>android := a, ios := i\<rparr>)
      | (None, i) \<Rightarrow>
     (case pushBucket (universal pe) (Option.bind opts opt_universal) of
        (r, u) \<Rightarrow> (r, pe\<lparr>android := a, ios := i, universal := u\<rparr>))))"

text \<open>A caller that keeps using the element after each call, whether or not it threw.\<close>

definition withFallbacksSeq :: "PageElementOpts option list \<Rightarrow> PageElement \<Rightarrow> PageElement" where
  "withFallbacksSeq calls pe = fold (\<lambda>opts p. snd (withFallbacks opts p)) calls pe"

text \<open>String-literal escaping for the two query dialects.\<close>

definition quoteJava :: "string \<Rightarrow> string" where
  "quoteJava s =
     (let escaped = replaceAll dquote [backslash, dquote] (replaceAll backslash [backslash, backslash] s)
      in [dquote] @ escaped @ [dquote])"

definition quoteNS :: "string \<Rightarrow> string" where
  "quoteNS s =
     (let escaped = replaceAll dquote [backslash, dquote] s
      in [dquote] @ escaped @ [dquote])"

definition byTextExact :: "string \<Rightarrow> PageElement" where
  "byTextExact text =
     newPageElement (Some
       \<lparr> opt_android = Some (One (Str (toAndroidUIA (''new UiSelector().text('' @ quoteJava text @ '')'')))),
         opt_ios = Some (One (Str (toIOSPredicate
           (''name == '' @ quoteNS text @ '' OR label == '' @ quoteNS text @
            '' OR value == '' @ quoteNS text)))),
         opt_universal = None \<rparr>)"

definition byTextContains :: "string \<Rightarrow> PageElement" where
  "byTextContains text =
     newPageElement (Some
       \<lparr> opt_android = Some (One (Str (toAndroidUIA
           (''new UiSelector().textContains('' @ quoteJava text @ '')'')))),
         opt_ios = Some (One (Str (toIOSPredicate
           (''name CONTAINS '' @ quoteNS text @ '' OR label CONTAINS '' @ quoteNS text @
            '' OR value CONTAINS '' @ quoteNS text)))),
         opt_universal = None \<rparr>)"

section \<open>Reading a string literal back\<close>

text \<open>
  The reader of a double-quoted string literal, as the Android UiSelector expression
  language and the iOS predicate language lex one: an opening quote, then characters up
  to the first unescaped quote; a backslash introduces an escape; a raw line terminator
  is not allowed inside the literal. It returns the text and what follows the literal.
  This is the reference the escaping functions are compared with.
\<close>

definition isLineTerminator :: "char \<Rightarrow> bool" where
  "isLineTerminator c = (c = newline \<or> c = CHR 0x0D)"

definition unescape :: "char \<Rightarrow> char option" where
  "unescape c =
     (if c = dquote then Some dquote
      else if c = backslash then Some backslash
      else if c = CHR ''n'' then Some newline
      else if c = CHR ''t'' then Some tab
      else if c = CHR ''r'' then Some (CHR 0x0D)
      else None)"

fun readBody :: "string \<Rightarrow> (string \<times> string) option" where
  "readBody [] = None"
| "readBody (c # cs) =
     (if c = dquote then Some ([], cs)
      else if c = backslash then
        (case cs of
           [] \<Rightarrow> None
         | d # ds \<Rightarrow>
             (case unescape d of
                None \<Rightarrow> None
              | Some u \<Rightarrow>
                  (case readBody ds of None \<Rightarrow> None | Some (t, r) \<Rightarrow> Some (u # t, r))))
      else if isLineTerminator c then None
      else (case readBody cs of None \<Rightarrow> None | Some (t, r) \<Rightarrow> Some (c # t, r)))"

definition readLiteral :: "string \<Rightarrow> (string \<times> string) option" where
  "readLiteral s = (case s of [] \<Rightarrow> None | c # cs \<Rightarrow> if c = dquote then readBody cs else None)"

definition stripPrefix :: "string \<Rightarrow> string \<Rightarrow> string option" where
  "stripPrefix p s = (if startsWith s p then Some (drop (length p) s) else None)"

text \<open>
  \<^verbatim>\<open>android=new UiSelector().<method>("<text>")\<close>: the text of the one literal argument.
\<close>

definition parseUiSelectorCall :: "string \<Rightarrow> string \<Rightarrow> string option" where
  "parseUiSelectorCall method sel =
     (case stripPrefix (''android=new UiSelector().'' @ method @ ''('') sel of
        None \<Rightarrow> None
      | Some r \<Rightarrow>
          (case readLiteral r of
             None \<Rightarrow> None
           | Some (t, rest) \<Rightarrow> if rest = '')'' then Some t else None))"

text \<open>
  \<^verbatim>\<open>-ios predicate string:name <op> "<t1>" OR label <op> "<t2>" OR value <op> "<t3>"\<close>:
  the texts of the three literals.
\<close>

definition parsePredicate :: "string \<Rightarrow> string \<Rightarrow> (string \<times> string \<times> string) option" where
  "parsePredicate opr sel =
     (case stripPrefix (''-ios predicate string:name '' @ opr @ '' '') sel of
        None \<Rightarrow> None
      | Some r1 \<Rightarrow>
     (case readLiteral r1 of
        None \<Rightarrow> None
      | Some (t1, r2) \<Rightarrow>
     (case stripPrefix ('' OR label '' @ opr @ '' '') r2 of
        None \<Rightarrow> None
      | Some r3 \<Rightarrow>
     (case readLiteral r3 of
        None \<Rightarrow> None
      | Some (t2, r4) \<Rightarrow>
     (case stripPrefix ('' OR value '' @ opr @ '' '') r4 of
        None \<Rightarrow> None
      | Some r5 \<Rightarrow>
     (case readLiteral r5 of
        None \<Rightarrow> None
      | Some (t3, r6) \<Rightarrow> if r6 = [] then Some (t1, t2, t3) else None))))))"

text \<open>
  The texts the factories are specified for: ordinary characters (anything but a quote,
  a backslash or a line terminator), with embedded double quotes, and for the Android
  dialect embedded backslashes.
\<close>

definition ordinaryChar :: "char \<Rightarrow> bool" where
  "ordinaryChar c = (c \<noteq> dquote \<and> c \<noteq> backslash \<and> \<not> isLineTerminator c)"

definition androidText :: "string \<Rightarrow> bool" where
  "androidText s = list_all (\<lambda>c. ordinaryChar c \<or> c = dquote \<or> c = backslash) s"

definition iosText :: "string \<Rightarrow> bool" where
  "iosText s = list_all (\<lambda>c. ordinaryChar c \<or> c = dquote) s"

text \<open>
  What a call of \<^verbatim>\<open>withFallbacks\<close> appends to each bucket, read off the call's options:
  the normalized entries of a truthy option, and nothing to the buckets that come after
  one whose spread throws.
\<close>

definition added :: "BucketInput option \<Rightarrow> string list" where
  "added inp = (if truthy inp then entries (normalizeList inp) else [])"

definition throws :: "BucketInput option \<Rightarrow> bool" where
  "throws inp = (truthy inp \<and> normalizeList inp = None)"

definition appendedAndroid :: "PageElementOpts option \<Rightarrow> string list" where
  "appendedAndroid opts = added (Option.bind opts opt_android)"

definition appendedIOS :: "PageElementOpts option \<Rightarrow> string list" where
  "appendedIOS opts =
     (if throws (Option.bind opts opt_android) then [] else added (Option.bind opts opt_ios))"

definition appendedUniversal :: "PageElementOpts option \<Rightarrow> string list" where
  "appendedUniversal opts =
     (if throws (Option.bind opts opt_android) \<or> throws (Option.bind opts opt_ios) then []
      else added (Option.bind opts opt_universal))"

definition bucketOf :: "Platform \<Rightarrow> PageElement \<Rightarrow> string list option" where
  "bucketOf p pe = (case p of Android \<Rightarrow> android pe | IOS \<Rightarrow> ios pe)"

definition appendedTo :: "Platform \<Rightarrow> PageElementOpts option \<Rightarrow> string list" where
  "appendedTo p opts = (case p of Android \<Rightarrow> appendedAndroid opts | IOS \<Rightarrow> appendedIOS opts)"

section \<open>Device lifecycle manager: \<^verbatim>\<open>DeviceLauncherService\<close>\<close>

subsection \<open>Configuration, host and state\<close>

record AndroidOpts =
  avdName :: "string option"
  port :: "int option"
  headless :: "bool option"
  coldBoot :: "bool option"
  noSnapshot :: "bool option"
  bootTimeoutMs :: "int option"
  killOnComplete :: "bool option"

record IOSOpts =
  udid :: "string option"
  deviceName :: "string option"
  ios_headless :: "bool option"
  ios_bootTimeoutMs :: "int option"
  ios_killOnComplete :: "bool option"

record DeviceServiceOpts =
  platform :: Platform
  opts_android :: "AndroidOpts option"
  opts_ios :: "IOSOpts option"
  verbose :: "bool option"

text \<open>
  What the service does to the outside world is recorded as a trace: a shell command run
  through \<^verbatim>\<open>exec\<close> with its outcome (\<open>Inl\<close> the message of the rejection, \<open>Inr\<close> the
  standard output), the detached \<^verbatim>\<open>spawn\<close> of the emulator, a \<^verbatim>\<open>sleep\<close>. The
  calls of \<^verbatim>\<open>this.log\<close> only write to the console and are left out.
\<close>

datatype event = Exec string "string + string" | Spawn string "string list" | Sleep int

text \<open>
  The context of a run: the constructor options, \<^verbatim>\<open>process.env\<close>, \<^verbatim>\<open>os.platform()\<close>,
  and the outside world as a function \<open>shell\<close> that answers a command, given everything
  that happened before it, with its outcome and the milliseconds it took.
  \<open>envNumber\<close> is \<^verbatim>\<open>Number(process.env[name])\<close> for the variables that are set; the
  model covers the integer values.
\<close>

record Context =
  opts :: DeviceServiceOpts
  env :: "string \<Rightarrow> string option"
  envNumber :: "string \<Rightarrow> int option"
  osPlatform :: string
  shell :: "event list \<Rightarrow> string \<Rightarrow> (string + string) \<times> nat"

text \<open>The fields of the service object, the trace so far and the clock \<^verbatim>\<open>Date.now()\<close>.\<close>

record Service =
  androidSerial :: "string option"
  iosUdid :: "string option"
  started :: bool
  trace :: "event list"
  now :: int

definition newService :: "int \<Rightarrow> Service" where
  "newService t0 = \<lparr> androidSerial = None, iosUdid = None, started = False, trace = [], now = t0 \<rparr>"

subsection \<open>Environment helpers (\<^verbatim>\<open>utils/env\<close>)\<close>

definition isTruthy :: "string \<Rightarrow> bool" where
  "isTruthy v = (toLowerCase v \<in> {''1'', ''true'', ''yes'', ''on''})"

definition envFlag :: "Context \<Rightarrow> string \<Rightarrow> bool option" where
  "envFlag c name = (case env c name of None \<Rightarrow> None | Some v \<Rightarrow> Some (isTruthy v))"

text \<open>\<^verbatim>\<open>a || b\<close> on optional strings: the empty string is falsy.\<close>

definition orTruthy :: "string option \<Rightarrow> string option \<Rightarrow> string option" where
  "orTruthy a b = (case a of None \<Rightarrow> b | Some x \<Rightarrow> if x \<noteq> [] then Some x else b)"

definition falsy :: "string option \<Rightarrow> bool" where
  "falsy a = (case a of None \<Rightarrow> True | Some x \<Rightarrow> x = [])"

subsection \<open>Primitive effects\<close>

text \<open>The promisified \<^verbatim>\<open>exec\<close>: it rejects with an Error or resolves with the output.\<close>

definition settle :: "string + string \<Rightarrow> JsError + string" where
  "settle out = (case out of Inl msg \<Rightarrow> Inl (Error msg) | Inr stdout \<Rightarrow> Inr stdout)"

definition exec :: "Context \<Rightarrow> string \<Rightarrow> Service \<Rightarrow> (JsError + string) \<times> Service" where
  "exec c cmd s =
     (case shell c (trace s) cmd of
        (out, took) \<Rightarrow>
          (settle out, s\<lparr>trace := trace s @ [Exec cmd out], now := now s + int took\<rparr>))"

text \<open>\<^verbatim>\<open>setTimeout\<close> waits at least one millisecond.\<close>

definition sleep :: "int \<Rightarrow> Service \<Rightarrow> Service" where
  "sleep ms s = s\<lparr>trace := trace s @ [Sleep ms], now := now s + max 1 ms\<rparr>"

definition spawn :: "string \<Rightarrow> string list \<Rightarrow> Service \<Rightarrow> Service" where
  "spawn cmd args s = s\<lparr>trace := trace s @ [Spawn cmd args]\<rparr>"

definition tryAdbRestart :: "Context \<Rightarrow> Service \<Rightarrow> Service" where
  "tryAdbRestart c s = snd (exec c ''adb start-server'' s)"

definition parseDevices :: "string \<Rightarrow> string list" where
  "parseDevices stdout =
     filter (\<lambda>d. d \<noteq> [])
       (map (\<lambda>l. case split tab (trim l) of [] \<Rightarrow> [] | x # _ \<Rightarrow> x) (drop 1 (split newline stdout)))"

definition adbDevices :: "Context \<Rightarrow> Service \<Rightarrow> (JsError + string list) \<times> Service" where
  "adbDevices c s =
     (case exec c ''adb devices'' s of
        (Inl e, s1) \<Rightarrow> (Inl e, s1)
      | (Inr stdout, s1) \<Rightarrow> (Inr (parseDevices stdout), s1))"

definition adbCmd :: "string \<Rightarrow> string list \<Rightarrow> string" where
  "adbCmd serial args = join '' '' ([''adb'', ''-s'', serial] @ args)"

definition execAdb :: "Context \<Rightarrow> string \<Rightarrow> string list \<Rightarrow> Service \<Rightarrow> (JsError + string) \<times> Service" where
  "execAdb c serial args s = exec c (adbCmd serial args) s"

text \<open>\<^verbatim>\<open>.then((r) => r.stdout.trim()).catch(() => '')\<close> and the \<^verbatim>\<open>includes('package:')\<close> probe.\<close>

definition trimmedOrEmpty :: "JsError + string \<Rightarrow> string" where
  "trimmedOrEmpty r = (case r of Inl _ \<Rightarrow> [] | Inr stdout \<Rightarrow> trim stdout)"

definition hasPackage :: "JsError + string \<Rightarrow> bool" where
  "hasPackage r = (case r of Inl _ \<Rightarrow> False | Inr stdout \<Rightarrow> includesStr stdout ''package:'')"

definition isEmulator :: "string \<Rightarrow> bool" where
  "isEmulator d = startsWith d ''emulator-''"

subsection \<open>Android\<close>

definition healthInterval :: "Context \<Rightarrow> int" where
  "healthInterval c = (case envNumber c ''ANDROID_HEALTHCHECK_INTERVAL_MS'' of None \<Rightarrow> 1500 | Some n \<Rightarrow> n)"

definition isAndroidHealthy :: "Context \<Rightarrow> string \<Rightarrow> Service \<Rightarrow> bool \<times> Service" where
  "isAndroidHealthy c serial s =
     (let interval = healthInterval c in
      case adbDevices c s of
        (Inl e, s1) \<Rightarrow> (False, s1)
      | (Inr list, s1) \<Rightarrow>
          if serial \<notin> set list then (False, s1)
          else
     (case execAdb c serial [''get-state''] s1 of
        (r2, s2) \<Rightarrow>
          if trimmedOrEmpty r2 \<noteq> ''device'' then (False, s2)
          else
     (case execAdb c serial [''shell'', ''getprop'', ''ro.build.version.release''] s2 of
        (r3, s3) \<Rightarrow>
          if trimmedOrEmpty r3 = [] then (False, s3)
          else
     (case execAdb c serial [''shell'', ''pm'', ''path'', ''android''] s3 of
        (r4, s4) \<Rightarrow>
          if \<not> hasPackage r4 then (False, s4)
          else
     (case execAdb c serial [''shell'', ''getprop'', ''sys.boot_completed''] s4 of
        (r5, s5) \<Rightarrow>
          if trimmedOrEmpty r5 \<noteq> ''1'' then
            (case execAdb c serial [''shell'', ''getprop'', ''sys.boot_completed''] (sleep interval s5) of
               (r6, s6) \<Rightarrow> if trimmedOrEmpty r6 \<noteq> ''1'' then (False, s6) else (True, s6))
          else (True, s5))))))"

function waitForAndroidHealthyFrom ::
  "Context \<Rightarrow> string \<Rightarrow> int \<Rightarrow> int \<Rightarrow> int \<Rightarrow> Service \<Rightarrow> bool \<times> Service" where
  "waitForAndroidHealthyFrom c serial retries interval i s =
     (if i \<le> retries then
        (case isAndroidHealthy c serial s of
           (ok, s1) \<Rightarrow>
             if ok then (True, s1)
             else waitForAndroidHealthyFrom c serial retries interval (i + 1) (sleep interval s1))
      else (False, s))"
  by pat_completeness auto
termination
  by (relation "measure (\<lambda>(c, serial, retries, interval, i, s). nat (retries + 1 - i))") auto

definition waitForAndroidHealthy :: "Context \<Rightarrow> string \<Rightarrow> Service \<Rightarrow> bool \<times> Service" where
  "waitForAndroidHealthy c serial s =
     (let retries = (case envNumber c ''ANDROID_HEALTHCHECK_RETRIES'' of None \<Rightarrow> 3 | Some n \<Rightarrow> n);
          interval = healthInterval c
      in waitForAndroidHealthyFrom c serial retries interval 0 s)"

definition stopAndroid :: "Context \<Rightarrow> Service \<Rightarrow> Service" where
  "stopAndroid c s =
     (case androidSerial s of
        None \<Rightarrow> s
      | Some serial \<Rightarrow>
          if serial = [] then s
          else
            (case execAdb c serial [''emu'', ''kill''] s of
               (Inl e, s1) \<Rightarrow> snd (exec c ''adb kill-server'' s1)
             | (Inr _, s1) \<Rightarrow> s1))"

text \<open>
  \<^verbatim>\<open>waitForBootComplete\<close>: the three property probes of \<^verbatim>\<open>Promise.allSettled\<close> are
  issued in the order written and answered in that order.
\<close>

function waitForBootCompleteFrom ::
  "Context \<Rightarrow> string \<Rightarrow> int \<Rightarrow> Service \<Rightarrow> (JsError + unit) \<times> Service" where
  "waitForBootCompleteFrom c serial deadline s =
     (if now s < deadline then
        (case execAdb c serial [''shell'', ''getprop'', ''sys.boot_completed''] s of (p1, s1) \<Rightarrow>
        (case execAdb c serial [''shell'', ''getprop'', ''dev.bootcomplete''] s1 of (p2, s2) \<Rightarrow>
        (case execAdb c serial [''shell'', ''getprop'', ''init.svc.bootanim''] s2 of (p3, s3) \<Rightarrow>
        (case execAdb c serial [''shell'', ''pm'', ''path'', ''android''] s3 of (p4, s4) \<Rightarrow>
           (let bootOk = (trimmedOrEmpty p1 = ''1'' \<or> trimmedOrEmpty p2 = ''1'');
                animOk = (trimmedOrEmpty p3 = [] \<or> trimmedOrEmpty p3 = ''stopped'');
                pmOk = hasPackage p4
            in if (bootOk \<and> animOk) \<or> (bootOk \<and> pmOk) then (Inr (), s4)
               else waitForBootCompleteFrom c serial deadline (sleep 1500 s4))))))
      else
        (case execAdb c serial [''shell'', ''getprop'', ''sys.boot_completed''] s of
           (Inr stdout, s1) \<Rightarrow>
             if trim stdout = ''1'' then (Inr (), s1)
             else (Inl (Error ''[android] emulator boot timeout (sys.boot_completed != 1)''), s1)
         | (Inl e, s1) \<Rightarrow>
             (Inl (Error ''[android] emulator boot timeout (sys.boot_completed != 1)''), s1)))"
  by pat_completeness auto
termination
  by (relation "measure (\<lambda>(c, serial, deadline, s). nat (deadline - now s))")
     (auto simp: execAdb_def exec_def sleep_def split: prod.splits)

definition waitForBootComplete ::
  "Context \<Rightarrow> string \<Rightarrow> int \<Rightarrow> Service \<Rightarrow> (JsError + unit) \<times> Service" where
  "waitForBootComplete c serial timeoutMs s =
     waitForBootCompleteFrom c serial (now s + max timeoutMs 60000) s"

text \<open>The loop of \<^verbatim>\<open>startAndroid\<close> that waits for the emulator to appear in \<^verbatim>\<open>adb devices\<close>.\<close>

function awaitSerial :: "Context \<Rightarrow> int \<Rightarrow> Service \<Rightarrow> (JsError + string option) \<times> Service" where
  "awaitSerial c deadline s =
     (if now s < deadline then
        (case adbDevices c s of
           (Inl e, s1) \<Rightarrow> (Inl e, s1)
         | (Inr ds, s1) \<Rightarrow>
             (case find isEmulator ds of
                Some serial \<Rightarrow> (Inr (Some serial), s1)
              | None \<Rightarrow> awaitSerial c deadline (sleep 1500 s1)))
      else (Inr None, s))"
  by pat_completeness auto
termination
  by (relation "measure (\<lambda>(c, deadline, s). nat (deadline - now s))")
     (auto simp: adbDevices_def exec_def sleep_def split: prod.splits sum.splits)

definition emulatorCmd :: "Context \<Rightarrow> string" where
  "emulatorCmd c = (if osPlatform c = ''win32'' then ''emulator.exe'' else ''emulator'')"

text \<open>\<^verbatim>\<open>this.opts.android?.avdName || process.env.ANDROID_EMULATOR_NAME\<close>\<close>

definition configuredAvdName :: "Context \<Rightarrow> string option" where
  "configuredAvdName c =
     orTruthy (Option.bind (opts_android (opts c)) avdName) (env c ''ANDROID_EMULATOR_NAME'')"

definition emulatorArgs :: "Context \<Rightarrow> string \<Rightarrow> bool \<Rightarrow> string list" where
  "emulatorArgs c name forceColdBoot =
     (let optPort = Option.bind (opts_android (opts c)) port;
          envPort = (if falsy (env c ''ANDROID_EMULATOR_PORT'') then None
                     else envNumber c ''ANDROID_EMULATOR_PORT'');
          thePort = (case optPort of None \<Rightarrow> envPort | Some p \<Rightarrow> if p \<noteq> 0 then Some p else envPort);
          cold = (forceColdBoot \<or> Option.bind (opts_android (opts c)) coldBoot = Some True
                  \<or> env c ''ANDROID_COLD_BOOT'' = Some ''1'');
          noSnap = (Option.bind (opts_android (opts c)) noSnapshot = Some True
                  \<or> env c ''ANDROID_NO_SNAPSHOT'' = Some ''1'');
          headl = orElse (Option.bind (opts_android (opts c)) headless)
                    (orElse (envFlag c ''ANDROID_HEADLESS'')
                      (orElse (envFlag c ''HEADLESS'') (envFlag c ''CI''))) = Some True
      in [''-avd'', name, ''-netdelay'', ''none'', ''-netspeed'', ''full'', ''-no-boot-anim''] @
         (case thePort of None \<Rightarrow> [] | Some p \<Rightarrow> [''-port'', show_int p]) @
         (if cold then [''-no-snapshot-load''] else []) @
         (if noSnap then [''-no-snapshot''] else []) @
         (if headl then [''-no-window''] else []))"

text \<open>
  \<^verbatim>\<open>startAndroid\<close>. Without an AVD name the argument after \<^verbatim>\<open>-avd\<close> is \<^verbatim>\<open>undefined\<close>,
  which the emulator receives as the text \<^verbatim>\<open>undefined\<close>; \<^verbatim>\<open>startOrHealAndroid\<close> never
  calls it so.
\<close>

definition startAndroid :: "Context \<Rightarrow> bool \<Rightarrow> Service \<Rightarrow> (JsError + unit) \<times> Service" where
  "startAndroid c forceColdBoot s =
     (let name = (case configuredAvdName c of None \<Rightarrow> ''undefined'' | Some n \<Rightarrow> n);
          bootTimeout = (case Option.bind (opts_android (opts c)) bootTimeoutMs of
                           None \<Rightarrow> 240000 | Some t \<Rightarrow> t);
          s1 = tryAdbRestart c s;
          s2 = spawn (emulatorCmd c) (emulatorArgs c name forceColdBoot) s1;
          deadline = now s2 + bootTimeout
      in case awaitSerial c deadline s2 of
           (Inl e, s3) \<Rightarrow> (Inl e, s3)
         | (Inr None, s3) \<Rightarrow>
             (Inl (Error (''[android] emulator did not appear in '' @ [dquote] @ ''adb devices'' @
                          [dquote] @ '' within timeout '' @ show_int bootTimeout @ ''ms'')), s3)
         | (Inr (Some serial), s3) \<Rightarrow>
     (let s4 = s3\<lparr>androidSerial := Some serial\<rparr> in
      case execAdb c serial [''wait-for-device''] s4 of
        (Inl e, s5) \<Rightarrow> (Inl e, s5)
      | (Inr _, s5) \<Rightarrow>
     (case waitForBootComplete c serial (deadline - now s5) s5 of
        (Inl e, s6) \<Rightarrow> (Inl e, s6)
      | (Inr _, s6) \<Rightarrow>
     (case waitForAndroidHealthy c serial s6 of
        (ok, s7) \<Rightarrow>
          if \<not> ok then (Inl (Error ''[android] emulator failed healthcheck after boot''), s7)
          else
            (let s8 = snd (execAdb c serial [''shell'', ''input'', ''keyevent'', ''82''] s7)
             in (Inr (), s8\<lparr>started := True\<rparr>))))))"

definition startOrHealAndroid :: "Context \<Rightarrow> Service \<Rightarrow> (JsError + unit) \<times> Service" where
  "startOrHealAndroid c s =
     (if falsy (configuredAvdName c) then (Inr (), s)
      else
     (case adbDevices c s of
        (Inl e, s1) \<Rightarrow> (Inl e, s1)
      | (Inr devices, s1) \<Rightarrow>
     (case find isEmulator devices of
        Some running \<Rightarrow>
          (let s2 = s1\<lparr>androidSerial := Some running\<rparr> in
           case isAndroidHealthy c running s2 of
             (ok, s3) \<Rightarrow>
               if ok then (Inr (), s3\<lparr>started := True\<rparr>)
               else
                 (let s4 = stopAndroid c s3;
                      coldRestart = (case envFlag c ''ANDROID_COLD_RESTART_ON_FAIL'' of
                                       None \<Rightarrow> True | Some b \<Rightarrow> b)
                  in startAndroid c coldRestart s4))
      | None \<Rightarrow> startAndroid c False s1)))"

text \<open>
  \<^verbatim>\<open>ensureAndroidReadyWithRetry\<close>: the \<^verbatim>\<open>for\<close> loop from a given attempt number; the
  wrapper reads the retry count (default 2) and starts at attempt 0. The backoff base is
  1500 ms.
\<close>

function ensureAndroidReadyFrom ::
  "Context \<Rightarrow> int \<Rightarrow> int \<Rightarrow> Service \<Rightarrow> (JsError + unit) \<times> Service" where
  "ensureAndroidReadyFrom c retries attempt s =
     (if attempt \<le> retries then
        (case startOrHealAndroid c s of
           (Inr _, s1) \<Rightarrow> (Inr (), s1)
         | (Inl e, s1) \<Rightarrow>
             (let s2 = tryAdbRestart c s1 in
              if attempt < retries
              then ensureAndroidReadyFrom c retries (attempt + 1) (sleep (1500 * (attempt + 1)) s2)
              else (Inl e, s2)))
      else (Inr (), s))"
  by pat_completeness auto
termination
  by (relation "measure (\<lambda>(c, retries, attempt, s). nat (retries + 1 - attempt))") auto

definition emulatorRetries :: "Context \<Rightarrow> int" where
  "emulatorRetries c = (case envNumber c ''ANDROID_EMULATOR_RETRIES'' of None \<Rightarrow> 2 | Some n \<Rightarrow> n)"

definition ensureAndroidReadyWithRetry :: "Context \<Rightarrow> Service \<Rightarrow> (JsError + unit) \<times> Service" where
  "ensureAndroidReadyWithRetry c s = ensureAndroidReadyFrom c (emulatorRetries c) 0 s"

subsection \<open>iOS\<close>

text \<open>The first match of \<^verbatim>\<open>/[0-9A-F-]{36}/i\<close>.\<close>

definition isUdidChar :: "char \<Rightarrow> bool" where
  "isUdidChar c = (c \<in> set ''0123456789ABCDEFabcdef-'')"

fun matchUdid :: "string \<Rightarrow> string option" where
  "matchUdid [] = None"
| "matchUdid (x # xs) =
     (if 36 \<le> length (x # xs) \<and> list_all isUdidChar (take 36 (x # xs))
      then Some (take 36 (x # xs)) else matchUdid xs)"

definition findUdidByName :: "Context \<Rightarrow> string \<Rightarrow> Service \<Rightarrow> string option \<times> Service" where
  "findUdidByName c name s =
     (case exec c (''xcrun simctl list devices | grep '' @ [dquote] @ name @ [dquote] @
                   '' | grep -v unavailable | tail -n 1'') s of
        (Inl e, s1) \<Rightarrow> (None, s1)
      | (Inr stdout, s1) \<Rightarrow> (matchUdid stdout, s1))"

definition isBooted :: "Context \<Rightarrow> string \<Rightarrow> Service \<Rightarrow> bool \<times> Service" where
  "isBooted c u s =
     (case exec c (''xcrun simctl list devices booted | grep '' @ u) s of
        (Inl e, s1) \<Rightarrow> (False, s1)
      | (Inr stdout, s1) \<Rightarrow> (includesStr stdout u, s1))"

function awaitBooted :: "Context \<Rightarrow> string \<Rightarrow> int \<Rightarrow> Service \<Rightarrow> Service" where
  "awaitBooted c u deadline s =
     (if now s < deadline then
        (case isBooted c u s of
           (ok, s1) \<Rightarrow> if ok then s1 else awaitBooted c u deadline (sleep 1000 s1))
      else s)"
  by pat_completeness auto
termination
  by (relation "measure (\<lambda>(c, u, deadline, s). nat (deadline - now s))")
     (auto simp: isBooted_def exec_def sleep_def split: prod.splits sum.splits)

text \<open>
  The first lines of \<^verbatim>\<open>startIOS\<close>: the target is the configured UDID, else the one
  looked up by device name (default \<^verbatim>\<open>iPhone 15\<close>).
\<close>

definition resolveTargetUdid :: "Context \<Rightarrow> Service \<Rightarrow> string option \<times> Service" where
  "resolveTargetUdid c s =
     (let configured = orTruthy (Option.bind (opts_ios (opts c)) udid) (env c ''IOS_UDID'');
          viaName = orTruthy (Option.bind (opts_ios (opts c)) deviceName) (env c ''IOS_DEVICE_NAME'');
          name = (case viaName of None \<Rightarrow> ''iPhone 15'' | Some n \<Rightarrow> if n = [] then ''iPhone 15'' else n)
      in if falsy configured then findUdidByName c name s else (configured, s))"

definition startIOS :: "Context \<Rightarrow> Service \<Rightarrow> (JsError + unit) \<times> Service" where
  "startIOS c s =
     (if osPlatform c \<noteq> ''darwin'' then (Inr (), s)
      else
     (let bootTimeout = (case Option.bind (opts_ios (opts c)) ios_bootTimeoutMs of
                           None \<Rightarrow> 120000 | Some t \<Rightarrow> t)
      in case resolveTargetUdid c s of
           (targetUdid, s1) \<Rightarrow>
     (case targetUdid of
        None \<Rightarrow> (Inr (), s1)
      | Some target \<Rightarrow>
          if target = [] then (Inr (), s1)
          else
     (case isBooted c target s1 of
        (alreadyBooted, s2) \<Rightarrow>
          if alreadyBooted then (Inr (), s2\<lparr>iosUdid := Some target\<rparr>)
          else
     (let headl = orElse (Option.bind (opts_ios (opts c)) ios_headless)
                    (orElse (envFlag c ''IOS_HEADLESS'')
                      (orElse (envFlag c ''HEADLESS'') (envFlag c ''CI''))) = Some True
      in case exec c (''xcrun simctl boot '' @ target) s2 of
           (Inl e, s3) \<Rightarrow> (Inl e, s3)
         | (Inr _, s3) \<Rightarrow>
     (let s4 = (if \<not> headl then snd (exec c ''open -a Simulator'' s3) else s3);
          s5 = awaitBooted c target (now s4 + bootTimeout) s4
      in case isBooted c target s5 of
           (ok, s6) \<Rightarrow>
             if \<not> ok then (Inl (Error ''[ios] simulator boot timeout''), s6)
             else (Inr (), s6\<lparr>iosUdid := Some target, started := True\<rparr>)))))))"

definition stopIOS :: "Context \<Rightarrow> Service \<Rightarrow> Service" where
  "stopIOS c s =
     (case iosUdid s of
        None \<Rightarrow> s
      | Some u \<Rightarrow> if u = [] then s else snd (exec c (''xcrun simctl shutdown '' @ u) s))"

subsection \<open>WDIO hooks\<close>

definition onPrepare :: "Context \<Rightarrow> Service \<Rightarrow> (JsError + unit) \<times> Service" where
  "onPrepare c s =
     (if platform (opts c) = Android then ensureAndroidReadyWithRetry c s else startIOS c s)"

definition beforeSession :: "Context \<Rightarrow> Service \<Rightarrow> (JsError + unit) \<times> Service" where
  "beforeSession c s =
     (if platform (opts c) = Android then ensureAndroidReadyWithRetry c s else (Inr (), s))"

definition onComplete :: "Context \<Rightarrow> Service \<Rightarrow> Service" where
  "onComplete c s =
     (if \<not> started s then s
      else if platform (opts c) = Android then
        (let kill = (case Option.bind (opts_android (opts c)) killOnComplete of
                       None \<Rightarrow> True | Some b \<Rightarrow> b)
         in if kill then stopAndroid c s else s)
      else
        (let kill = (case Option.bind (opts_ios (opts c)) ios_killOnComplete of
                       None \<Rightarrow> False | Some b \<Rightarrow> b)
         in if kill then stopIOS c s else s))"

subsection \<open>Reference notions for the retry loop and the healthy path\<close>

text \<open>
  The state in which attempt number \<open>k\<close> (from 0) of the start-or-heal sequence begins
  when every earlier attempt failed: after each failed attempt the adb server is
  restarted and the service sleeps 1500 ms times the number of the attempt just made.
\<close>

fun attemptStart :: "Context \<Rightarrow> Service \<Rightarrow> nat \<Rightarrow> Service" where
  "attemptStart c s 0 = s"
| "attemptStart c s (Suc k) =
     sleep (1500 * (int k + 1)) (tryAdbRestart c (snd (startOrHealAndroid c (attemptStart c s k))))"

definition attemptFails :: "Context \<Rightarrow> Service \<Rightarrow> nat \<Rightarrow> bool" where
  "attemptFails c s k = isl (fst (startOrHealAndroid c (attemptStart c s k)))"

text \<open>The events of a device listing or of the health check of a serial; no spawn.\<close>

definition listingOrHealthCheck :: "string \<Rightarrow> event \<Rightarrow> bool" where
  "listingOrHealthCheck serial ev =
     (case ev of
        Exec cmd _ \<Rightarrow>
          cmd \<in> {''adb devices'',
                 adbCmd serial [''get-state''],
                 adbCmd serial [''shell'', ''getprop'', ''ro.build.version.release''],
                 adbCmd serial [''shell'', ''pm'', ''path'', ''android''],
                 adbCmd serial [''shell'', ''getprop'', ''sys.boot_completed'']}
      | Sleep _ \<Rightarrow> True
      | Spawn _ _ \<Rightarrow> False)"

text \<open>A host on which every command fails: no adb server can be reached.\<close>

definition deadShell :: "event list \<Rightarrow> string \<Rightarrow> (string + string) \<times> nat" where
  "deadShell tr cmd = (Inl ''error: closed'', 5)"

definition androidContext :: "string option \<Rightarrow> (event list \<Rightarrow> string \<Rightarrow> (string + string) \<times> nat) \<Rightarrow> Context" where
  "androidContext avd sh =
     \<lparr> opts = \<lparr> platform = Android,
                opts_android = Some \<lparr> avdName = avd, port = None, headless = None, coldBoot = None,
                                      noSnapshot = None, bootTimeoutMs = None, killOnComplete = None \<rparr>,
                opts_ios = None, verbose = None \<rparr>,
       env = (\<lambda>_. None), envNumber = (\<lambda>_. None), osPlatform = ''linux'', shell = sh \<rparr>"

text \<open>A host with one emulator, booted and answering every probe.\<close>

definition healthyShell :: "event list \<Rightarrow> string \<Rightarrow> (string + string) \<times> nat" where
  "healthyShell tr cmd =
     (if cmd = ''adb devices''
        then (Inr (''List of devices attached'' @ [newline] @ ''emulator-5554'' @ [tab] @ ''device'' @ [newline]), 20)
      else if cmd = ''adb -s emulator-5554 get-state'' then (Inr (''device'' @ [newline]), 10)
      else if cmd = ''adb -s emulator-5554 shell getprop ro.build.version.release'' then (Inr (''14'' @ [newline]), 10)
      else if cmd = ''adb -s emulator-5554 shell pm path android''
        then (Inr (''package:/system/framework/framework-res.apk'' @ [newline]), 30)
      else if cmd = ''adb -s emulator-5554 shell getprop sys.boot_completed'' then (Inr (''1'' @ [newline]), 10)
      else (Inr [], 1))"

text \<open>
  \<open>s'\<close> is \<open>s\<close> after some more events, all of a given kind, with the fields of the
  service object untouched (only the trace and the clock moved).
\<close>

definition extendsWith :: "(event \<Rightarrow> bool) \<Rightarrow> Service \<Rightarrow> Service \<Rightarrow> bool" where
  "extendsWith P s s' =
     (\<exists>new. trace s' = trace s @ new \<and> list_all P new \<and> androidSerial s' = androidSerial s
            \<and> iosUdid s' = iosUdid s \<and> started s' = started s)"

definition bootedQuery :: "string \<Rightarrow> string" where
  "bootedQuery u = ''xcrun simctl list devices booted | grep '' @ u"

text \<open>A macOS host whose simulator with a given UDID is booted.\<close>

definition sampleUdid :: string where
  "sampleUdid = ''3F2A9C1E-7B4D-4E8A-9F10-2C6D5E4B3A21''"

definition bootedShell :: "event list \<Rightarrow> string \<Rightarrow> (string + string) \<times> nat" where
  "bootedShell tr cmd =
     (if cmd = bootedQuery sampleUdid
        then (Inr (''    iPhone 15 ('' @ sampleUdid @ '') (Booted)'' @ [newline]), 40)
      else (Inl ''Command failed'', 5))"

definition iosContext :: "string option \<Rightarrow> (event list \<Rightarrow> string \<Rightarrow> (string + string) \<times> nat) \<Rightarrow> Context" where
  "iosContext u sh =
     \<lparr> opts = \<lparr> platform = IOS, opts_android = None,
                opts_ios = Some \<lparr> udid = u, deviceName = None, ios_headless = None,
                                  ios_bootTimeoutMs = None, ios_killOnComplete = Some True \<rparr>,
                verbose = None \<rparr>,
       env = (\<lambda>_. None), envNumber = (\<lambda>_. None), osPlatform = ''darwin'', shell = sh \<rparr>"

section \<open>Diagnostics bundle collector: \<^verbatim>\<open>collectFailureBundle\<close>\<close>

text \<open>
  A call on the driver either throws (with a message) or returns; a method reached
  through \<^verbatim>\<open>?.()\<close> may also be absent, and the call is then \<^verbatim>\<open>undefined\<close>.
\<close>

datatype 'a call = Absent | Throws string | Returns 'a

type_synonym Rect = "int \<times> int \<times> int \<times> int"

record Driver =
  drv_isAndroid :: bool
  browserSessionId :: "string option"
  driverSessionId :: "string option"
  getContext :: "string call"
  getContexts :: "string list call"
  getWindowRect :: "string + Rect"
  getPageSource :: "string + string"
  getCurrentPackage :: "string call"
  getCurrentActivity :: "string call"
  mobileShell :: "string \<Rightarrow> string list \<Rightarrow> string + string"

text \<open>
  The process around the collector: \<^verbatim>\<open>process.env\<close>, the promisified \<^verbatim>\<open>exec\<close> (\<open>Inl\<close>
  the message of the rejection, \<open>Inr\<close> the standard output) and the time stamp
  \<^verbatim>\<open>new Date().toISOString()\<close>.
\<close>

record DiagHost =
  d_env :: "string \<Rightarrow> string option"
  d_exec :: "string \<Rightarrow> string + string"
  isoNow :: string

record FailureBundleOpts =
  includePageSource :: "bool option"
  maxSourceLength :: "int option"
  packageId :: "string option"
  bundleId :: "string option"
  attachmentName :: "string option"

record AppInfo =
  app_packageId :: "string option"
  app_bundleId :: "string option"
  app_activity :: "string option"

text \<open>
  A row of the iOS TCC table. The source stores \<^verbatim>\<open>Number(allowedStr)\<close> and
  \<^verbatim>\<open>Number(promptStr)\<close>; the row keeps the two strings that \<^verbatim>\<open>Number\<close> is applied to
  (\<open>None\<close> for a missing column).
\<close>

record TccRow =
  service :: string
  allowed :: "string option"
  prompt_count :: "string option"

record Permissions =
  granted :: "string list option"
  denied :: "string list option"
  raw :: "string option"
  iosTcc :: "TccRow list option"

record FailureBundle =
  b_timestamp :: string
  b_platform :: Platform
  b_sessionId :: "string option"
  b_context :: "string option"
  b_contexts :: "string list option"
  b_windowRect :: "Rect option"
  b_pageSource :: "string option"
  b_app :: "AppInfo option"
  b_permissions :: "Permissions option"
  b_notes :: "string list"

text \<open>\<^verbatim>\<open>s.slice(0, n)\<close>: a negative end counts from the end of the string.\<close>

definition slice0 :: "string \<Rightarrow> int \<Rightarrow> string" where
  "slice0 s n = (if n < 0 then take (nat (int (length s) + n)) s else take (nat n) s)"

definition truncateSource :: "int \<Rightarrow> string \<Rightarrow> string" where
  "truncateSource maxLen src =
     (if int (length src) > maxLen
      then slice0 src maxLen @ [newline] @ ''/* truncated '' @ show_int (int (length src) - maxLen) @ '' chars */''
      else src)"

text \<open>
  The first match of \<^verbatim>\<open>/grantedPermissions:\s*\[([^\]]*)\]/s\<close>: its group 1. Each
  quantifier is followed by a character outside its class, so the greedy match is the
  only one at a given start.
\<close>

definition matchGrantedAt :: "string \<Rightarrow> string option" where
  "matchGrantedAt s =
     (case stripPrefix ''grantedPermissions:'' s of
        None \<Rightarrow> None
      | Some r \<Rightarrow>
          (case dropWhile isSpace r of
             [] \<Rightarrow> None
           | b # body \<Rightarrow>
               if b \<noteq> CHR ''['' then None
               else if dropWhile (\<lambda>c. c \<noteq> CHR '']'') body = [] then None
               else Some (takeWhile (\<lambda>c. c \<noteq> CHR '']'') body)))"

fun matchGranted :: "string \<Rightarrow> string option" where
  "matchGranted [] = None"
| "matchGranted (x # xs) =
     (case matchGrantedAt (x # xs) of Some m \<Rightarrow> Some m | None \<Rightarrow> matchGranted xs)"

text \<open>
  The first match in a line of
  \<^verbatim>\<open>/(android\.permission\.[\w_]+)\s*:\s*granted\s*=\s*(true|false)/i\<close>: group 1 and
  whether group 2, lower-cased, is \<^verbatim>\<open>true\<close>.
\<close>

definition isWordChar :: "char \<Rightarrow> bool" where
  "isWordChar c =
     (let n = (of_char c :: nat) in
      (48 \<le> n \<and> n \<le> 57) \<or> (65 \<le> n \<and> n \<le> 90) \<or> (97 \<le> n \<and> n \<le> 122) \<or> n = 95)"

definition stripPrefixCI :: "string \<Rightarrow> string \<Rightarrow> string option" where
  "stripPrefixCI p s =
     (if toLowerCase (take (length p) s) = p then Some (drop (length p) s) else None)"

definition matchPermAt :: "string \<Rightarrow> (string \<times> bool) option" where
  "matchPermAt s =
     (case stripPrefixCI ''android.permission.'' s of
        None \<Rightarrow> None
      | Some r0 \<Rightarrow>
          if takeWhile isWordChar r0 = [] then None
          else
     (case dropWhile isSpace (dropWhile isWordChar r0) of
        [] \<Rightarrow> None
      | colon # r1 \<Rightarrow>
          if colon \<noteq> CHR '':'' then None
          else
     (case stripPrefixCI ''granted'' (dropWhile isSpace r1) of
        None \<Rightarrow> None
      | Some r2 \<Rightarrow>
     (case dropWhile isSpace r2 of
        [] \<Rightarrow> None
      | eq # r3 \<Rightarrow>
          if eq \<noteq> CHR ''='' then None
          else if stripPrefixCI ''true'' (dropWhile isSpace r3) \<noteq> None
            then Some (take 19 s @ takeWhile isWordChar r0, True)
          else if stripPrefixCI ''false'' (dropWhile isSpace r3) \<noteq> None
            then Some (take 19 s @ takeWhile isWordChar r0, False)
          else None))))"

fun matchPerm :: "string \<Rightarrow> (string \<times> bool) option" where
  "matchPerm [] = None"
| "matchPerm (x # xs) =
     (case matchPermAt (x # xs) of Some m \<Rightarrow> Some m | None \<Rightarrow> matchPerm xs)"

text \<open>The granted and denied names of a \<^verbatim>\<open>dumpsys package\<close> output, before deduplication.\<close>

definition parseDumpsys :: "string \<Rightarrow> string list \<times> string list" where
  "parseDumpsys rawOut =
     (case matchGranted rawOut of
        Some inner \<Rightarrow> (filter (\<lambda>s. s \<noteq> []) (map trim (split (CHR '','') inner)), [])
      | None \<Rightarrow>
          (let ms = List.map_filter matchPerm (split newline rawOut)
           in (map fst (filter snd ms), map fst (filter (\<lambda>m. \<not> snd m) ms))))"

text \<open>\<^verbatim>\<open>Array.from(new Set(xs)).sort()\<close>: distinct names in code-unit order.\<close>

definition uniqueSorted :: "string list \<Rightarrow> string list" where
  "uniqueSorted xs = sort (remdups xs)"

definition parseTccRow :: "string \<Rightarrow> TccRow" where
  "parseTccRow line =
     (let cols = split (CHR ''|'') line
      in \<lparr> service = (case cols of [] \<Rightarrow> [] | c # _ \<Rightarrow> c),
           allowed = (case drop 1 cols of [] \<Rightarrow> None | c # _ \<Rightarrow> Some c),
           prompt_count = (case drop 2 cols of [] \<Rightarrow> None | c # _ \<Rightarrow> Some c) \<rparr>)"

definition returned :: "'a call \<Rightarrow> 'a option" where
  "returned r = (case r of Returns v \<Rightarrow> Some v | _ \<Rightarrow> None)"

definition addNote :: "string \<Rightarrow> FailureBundle \<Rightarrow> FailureBundle" where
  "addNote msg b = b\<lparr>b_notes := b_notes b @ [msg]\<rparr>"

text \<open>
  The Android branch. The package is the option, else the driver's current package (a
  throwing query is ignored), else \<^verbatim>\<open>ANDROID_APP_PACKAGE\<close>.
\<close>

definition resolvePackage :: "Driver \<Rightarrow> DiagHost \<Rightarrow> FailureBundleOpts \<Rightarrow> string option" where
  "resolvePackage d h po =
     (let pkg0 = packageId po;
          pkg1 = (if falsy pkg0
                  then (case getCurrentPackage d of Returns v \<Rightarrow> Some v | Absent \<Rightarrow> None | Throws _ \<Rightarrow> pkg0)
                  else pkg0)
      in if falsy pkg1 then d_env h ''ANDROID_APP_PACKAGE'' else pkg1)"

text \<open>The guarded read of the permission state from \<^verbatim>\<open>dumpsys package\<close>.\<close>

definition readAndroidPermissions :: "Driver \<Rightarrow> DiagHost \<Rightarrow> string \<Rightarrow> FailureBundle \<Rightarrow> FailureBundle" where
  "readAndroidPermissions d h p b =
     (case mobileShell d ''dumpsys'' [''package'', p] of
        Inl msg \<Rightarrow> addNote (''android dumpsys parse failed: '' @ msg) b
      | Inr rawOut \<Rightarrow>
          (case parseDumpsys rawOut of
             (g, dn) \<Rightarrow>
               b\<lparr>b_permissions := Some
                   \<lparr> granted = Some (uniqueSorted g), denied = Some (uniqueSorted dn),
                     raw = (if isTruthy (case d_env h ''AUTO_EXPLAIN_INCLUDE_RAW'' of
                                           None \<Rightarrow> [] | Some v \<Rightarrow> v)
                            then Some (slice0 rawOut 250000) else None),
                     iosTcc = None \<rparr>\<rparr>))"

definition collectAndroid :: "Driver \<Rightarrow> DiagHost \<Rightarrow> FailureBundleOpts \<Rightarrow> FailureBundle \<Rightarrow> FailureBundle" where
  "collectAndroid d h po b =
     (let pkg = resolvePackage d h po;
          act = returned (getCurrentActivity d);
          b1 = b\<lparr>b_app := Some \<lparr>app_packageId = pkg, app_bundleId = None, app_activity = act\<rparr>\<rparr>
      in case pkg of
           None \<Rightarrow> addNote ''packageId not resolved for Android (set ANDROID_APP_PACKAGE or pass opts.packageId)'' b1
         | Some p \<Rightarrow>
             if p = [] then
               addNote ''packageId not resolved for Android (set ANDROID_APP_PACKAGE or pass opts.packageId)'' b1
             else readAndroidPermissions d h p b1)"

text \<open>The iOS branch: the bundle id, then the guarded read of the simulator's TCC table.\<close>

definition readTcc :: "DiagHost \<Rightarrow> string \<Rightarrow> string \<Rightarrow> FailureBundle \<Rightarrow> FailureBundle" where
  "readTcc h u bid b =
     (let tccPath = (case d_env h ''HOME'' of None \<Rightarrow> ''undefined'' | Some p \<Rightarrow> p) @
                    ''/Library/Developer/CoreSimulator/Devices/'' @ u @ ''/data/Library/TCC/TCC.db'';
          cmd = ''sqlite3 '' @ [dquote] @ tccPath @ [dquote] @ '' '' @ [dquote] @
                ''select service, allowed, prompt_count from access where client='' @ [CHR 0x27] @
                bid @ [CHR 0x27] @ [dquote]
      in case d_exec h cmd of
           Inl msg \<Rightarrow> addNote (''iOS Simulator TCC read failed: '' @ msg) b
         | Inr stdout \<Rightarrow>
             b\<lparr>b_permissions := Some
                 \<lparr> granted = None, denied = None, raw = None,
                   iosTcc = Some (map parseTccRow
                              (filter (\<lambda>l. l \<noteq> []) (split newline (trim stdout)))) \<rparr>\<rparr>)"

definition collectIOS :: "Driver \<Rightarrow> DiagHost \<Rightarrow> FailureBundleOpts \<Rightarrow> FailureBundle \<Rightarrow> FailureBundle" where
  "collectIOS d h po b =
     (let u = d_env h ''IOS_UDID'';
          bid = orTruthy (bundleId po) (d_env h ''IOS_BUNDLE_ID'');
          b1 = b\<lparr>b_app := Some \<lparr>app_packageId = None, app_bundleId = bid, app_activity = None\<rparr>\<rparr>
      in case (u, bid) of
           (Some uv, Some bv) \<Rightarrow>
             if uv = [] \<or> bv = [] then
               addNote ''iOS permissions collection requires IOS_UDID and bundleId (IOS_BUNDLE_ID or opts.bundleId)'' b1
             else readTcc h uv bv b1
         | _ \<Rightarrow>
             addNote ''iOS permissions collection requires IOS_UDID and bundleId (IOS_BUNDLE_ID or opts.bundleId)'' b1)"

definition collectFailureBundle :: "Driver \<Rightarrow> DiagHost \<Rightarrow> FailureBundleOpts \<Rightarrow> FailureBundle" where
  "collectFailureBundle d h po =
     (let includeSource = (case includePageSource po of None \<Rightarrow> True | Some v \<Rightarrow> v);
          maxLen = (case maxSourceLength po of None \<Rightarrow> 250000 | Some n \<Rightarrow> n);
          plat = (if drv_isAndroid d then Android else IOS);
          b0 = \<lparr> b_timestamp = isoNow h, b_platform = plat,
                 b_sessionId = orTruthy (browserSessionId d) (driverSessionId d),
                 b_context = None, b_contexts = None, b_windowRect = None, b_pageSource = None,
                 b_app = None, b_permissions = None, b_notes = [] \<rparr>;
          b1 = b0\<lparr>b_context := returned (getContext d)\<rparr>;
          b2 = b1\<lparr>b_contexts := returned (getContexts d)\<rparr>;
          b3 = b2\<lparr>b_windowRect := (case getWindowRect d of Inl _ \<Rightarrow> None | Inr r \<Rightarrow> Some r)\<rparr>;
          b4 = (if includeSource then
                  (case getPageSource d of
                     Inr src \<Rightarrow> b3\<lparr>b_pageSource := Some (truncateSource maxLen src)\<rparr>
                   | Inl msg \<Rightarrow> addNote (''getPageSource() failed: '' @ msg) b3)
                else b3)
      in if plat = Android then collectAndroid d h po b4 else collectIOS d h po b4)"

text \<open>
  An Android session in which the context queries and the window-geometry query throw,
  while the page source and the permission dump are read.
\<close>

definition flakyDriver :: Driver where
  "flakyDriver =
     \<lparr> drv_isAndroid = True, browserSessionId = Some ''7c1f'', driverSessionId = None,
       getContext = Throws ''no such context'', getContexts = Throws ''no such context'',
       getWindowRect = Inl ''unknown command'', getPageSource = Inr ''<hierarchy/>'',
       getCurrentPackage = Throws ''socket hang up'', getCurrentActivity = Throws ''socket hang up'',
       mobileShell = (\<lambda>cmd args. Inr ''grantedPermissions: [android.permission.CAMERA]'') \<rparr>"

definition plainHost :: DiagHost where
  "plainHost = \<lparr> d_env = (\<lambda>_. None), d_exec = (\<lambda>_. Inl ''not found''), isoNow = ''2025-01-01T00:00:00.000Z'' \<rparr>"

definition packageOpts :: FailureBundleOpts where
  "packageOpts =
     \<lparr> includePageSource = None, maxSourceLength = None, packageId = Some ''com.example.app'',
       bundleId = None, attachmentName = None \<rparr>"

text \<open>The default options: no package and no bundle id passed.\<close>

definition bareOpts :: FailureBundleOpts where
  "bareOpts =
     \<lparr> includePageSource = None, maxSourceLength = None, packageId = None,
       bundleId = None, attachmentName = None \<rparr>"

text \<open>A session whose page source is 300 000 characters long.\<close>

definition longSourceDriver :: Driver where
  "longSourceDriver = flakyDriver\<lparr>getPageSource := Inr (replicate 300000 (CHR ''x''))\<rparr>"

text \<open>
  The notes a collection leaves, read off the steps that the source guards with a note:
  the page-source dump, the Android permission dump (or the unresolved package) and the
  iOS permission table (or its missing identifiers).
\<close>

definition sourceNotes :: "Driver \<Rightarrow> FailureBundleOpts \<Rightarrow> string list" where
  "sourceNotes d po =
     (if includePageSource po = Some False then []
      else (case getPageSource d of Inl msg \<Rightarrow> [''getPageSource() failed: '' @ msg] | Inr _ \<Rightarrow> []))"

definition androidNotes :: "Driver \<Rightarrow> DiagHost \<Rightarrow> FailureBundleOpts \<Rightarrow> string list" where
  "androidNotes d h po =
     (if falsy (resolvePackage d h po)
      then [''packageId not resolved for Android (set ANDROID_APP_PACKAGE or pass opts.packageId)'']
      else (case mobileShell d ''dumpsys'' [''package'', the (resolvePackage d h po)] of
              Inl msg \<Rightarrow> [''android dumpsys parse failed: '' @ msg] | Inr _ \<Rightarrow> []))"

definition tccQuery :: "DiagHost \<Rightarrow> string \<Rightarrow> string \<Rightarrow> string" where
  "tccQuery h u bid =
     ''sqlite3 '' @ [dquote] @ (case d_env h ''HOME'' of None \<Rightarrow> ''undefined'' | Some p \<Rightarrow> p) @
     ''/Library/Developer/CoreSimulator/Devices/'' @ u @ ''/data/Library/TCC/TCC.db'' @ [dquote] @
     '' '' @ [dquote] @ ''select service, allowed, prompt_count from access where client='' @
     [CHR 0x27] @ bid @ [CHR 0x27] @ [dquote]"

definition iosNotes :: "DiagHost \<Rightarrow> FailureBundleOpts \<Rightarrow> string list" where
  "iosNotes h po =
     (let u = d_env h ''IOS_UDID''; bid = orTruthy (bundleId po) (d_env h ''IOS_BUNDLE_ID'')
      in if falsy u \<or> falsy bid
         then [''iOS permissions collection requires IOS_UDID and bundleId (IOS_BUNDLE_ID or opts.bundleId)'']
         else (case d_exec h (tccQuery h (the u) (the bid)) of
                 Inl msg \<Rightarrow> [''iOS Simulator TCC read failed: '' @ msg] | Inr _ \<Rightarrow> []))"

text \<open>A session in which also the page-source dump and the permission dump fail.\<close>

definition brokenDriver :: Driver where
  "brokenDriver =
     flakyDriver\<lparr>getPageSource := Inl ''timeout'', mobileShell := (\<lambda>cmd args. Inl ''shell disabled'')\<rparr>"

section \<open>Notions for the lifecycle invariant\<close>

text \<open>
  The events of one run of the Android health check that passes for a serial: the device
  listing that shows the serial, the connection state \<^verbatim>\<open>device\<close>, a non-empty platform
  version, the package manager answering, and \<^verbatim>\<open>sys.boot_completed\<close> read as \<^verbatim>\<open>1\<close>, at
  once or at the second reading after a pause.
\<close>

inductive healthCheckPassed :: "string \<Rightarrow> event list \<Rightarrow> bool" where
  at_once:
    "\<lbrakk> serial \<in> set (parseDevices out);
       trimmedOrEmpty (settle o1) = ''device'';
       trimmedOrEmpty (settle o2) \<noteq> [];
       hasPackage (settle o3);
       trimmedOrEmpty (settle o4) = ''1'' \<rbrakk>
     \<Longrightarrow> healthCheckPassed serial
           [Exec ''adb devices'' (Inr out),
            Exec (adbCmd serial [''get-state'']) o1,
            Exec (adbCmd serial [''shell'', ''getprop'', ''ro.build.version.release'']) o2,
            Exec (adbCmd serial [''shell'', ''pm'', ''path'', ''android'']) o3,
            Exec (adbCmd serial [''shell'', ''getprop'', ''sys.boot_completed'']) o4]"
| after_pause:
    "\<lbrakk> serial \<in> set (parseDevices out);
       trimmedOrEmpty (settle o1) = ''device'';
       trimmedOrEmpty (settle o2) \<noteq> [];
       hasPackage (settle o3);
       trimmedOrEmpty (settle o4) \<noteq> ''1'';
       trimmedOrEmpty (settle o5) = ''1'' \<rbrakk>
     \<Longrightarrow> healthCheckPassed serial
           [Exec ''adb devices'' (Inr out),
            Exec (adbCmd serial [''get-state'']) o1,
            Exec (adbCmd serial [''shell'', ''getprop'', ''ro.build.version.release'']) o2,
            Exec (adbCmd serial [''shell'', ''pm'', ''path'', ''android'']) o3,
            Exec (adbCmd serial [''shell'', ''getprop'', ''sys.boot_completed'']) o4,
            Sleep ms,
            Exec (adbCmd serial [''shell'', ''getprop'', ''sys.boot_completed'']) o5]"

text \<open>The booted-status query of a simulator that answered with its UDID.\<close>

inductive bootedConfirmed :: "string \<Rightarrow> event list \<Rightarrow> bool" where
  booted: "includesStr out u \<Longrightarrow> bootedConfirmed u [Exec (bootedQuery u) (Inr out)]"

text \<open>
  Somewhere in the trace the device \<open>dev\<close> was confirmed healthy: a run of the Android
  health check that passed for this serial, or a booted-status query answered with this
  UDID.
\<close>

inductive confirmedDevice :: "string \<Rightarrow> event list \<Rightarrow> bool" where
  android_healthy: "healthCheckPassed dev evs \<Longrightarrow> confirmedDevice dev (before @ evs @ after)"
| ios_booted: "bootedConfirmed dev evs \<Longrightarrow> confirmedDevice dev (before @ evs @ after)"

text \<open>A device identifier is recorded: an Android serial or an iOS UDID.\<close>

definition identified :: "Service \<Rightarrow> bool" where
  "identified s = (\<not> falsy (androidSerial s) \<or> \<not> falsy (iosUdid s))"

text \<open>The identifier \<open>dev\<close> is the recorded Android serial or the recorded iOS UDID.\<close>

definition recordedDevice :: "Service \<Rightarrow> string \<Rightarrow> bool" where
  "recordedDevice s dev = (dev \<noteq> [] \<and> (androidSerial s = Some dev \<or> iosUdid s = Some dev))"

text \<open>
  One operation of the service object: a hook, or one of the methods the hooks are made
  of, called with any arguments.
\<close>

inductive step :: "Context \<Rightarrow> Service \<Rightarrow> Service \<Rightarrow> bool" for c :: Context where
  s_onPrepare: "step c s (snd (onPrepare c s))"
| s_beforeSession: "step c s (snd (beforeSession c s))"
| s_onComplete: "step c s (onComplete c s)"
| s_ensure: "step c s (snd (ensureAndroidReadyWithRetry c s))"
| s_startOrHeal: "step c s (snd (startOrHealAndroid c s))"
| s_startAndroid: "step c s (snd (startAndroid c force s))"
| s_isHealthy: "step c s (snd (isAndroidHealthy c serial s))"
| s_waitHealthy: "step c s (snd (waitForAndroidHealthy c serial s))"
| s_waitBoot: "step c s (snd (waitForBootComplete c serial timeoutMs s))"
| s_stopAndroid: "step c s (stopAndroid c s)"
| s_adbDevices: "step c s (snd (adbDevices c s))"
| s_execAdb: "step c s (snd (execAdb c serial args s))"
| s_tryAdbRestart: "step c s (tryAdbRestart c s)"
| s_startIOS: "step c s (snd (startIOS c s))"
| s_stopIOS: "step c s (stopIOS c s)"
| s_isBooted: "step c s (snd (isBooted c u s))"
| s_findUdid: "step c s (snd (findUdidByName c name s))"
| s_sleep: "step c s (sleep ms s)"

text \<open>
  The states a service object can be in: a new object, and the state after any sequence
  of operations.
\<close>

inductive reachable :: "Context \<Rightarrow> Service \<Rightarrow> bool" for c :: Context where
  r_new: "reachable c (newService t0)"
| r_step: "reachable c s \<Longrightarrow> step c s s' \<Longrightarrow> reachable c s'"

text \<open>
  From \<open>s\<close> to \<open>s'\<close> the trace only grew, a recorded identifier stayed recorded, and
  the started flag did not change.
\<close>

definition keeps :: "Service \<Rightarrow> Service \<Rightarrow> bool" where
  "keeps s s' =
     ((\<exists>new. trace s' = trace s @ new)
      \<and> (identified s \<longrightarrow> identified s')
      \<and> started s' = started s)"

text \<open>
  From \<open>s\<close> to \<open>s'\<close> the trace only grew, a recorded identifier stayed recorded, the
  started flag was not lowered, and if it was raised then the identifier recorded in
  \<open>s'\<close> is that of a device confirmed healthy in the trace.
\<close>

definition advances :: "Service \<Rightarrow> Service \<Rightarrow> bool" where
  "advances s s' =
     ((\<exists>new. trace s' = trace s @ new)
      \<and> (identified s \<longrightarrow> identified s')
      \<and> (started s \<longrightarrow> started s')
      \<and> (started s' \<longrightarrow> started s \<or> (\<exists>dev. recordedDevice s' dev \<and> confirmedDevice dev (trace s'))))"

text \<open>
  A host on which emulator-5554 answers every probe until its first health check is
  through (the six commands of the listing and the check), and is then replaced by
  emulator-5556, which is listed but answers no command.
\<close>

definition offlineListing :: string where
  "offlineListing = ''List of devices attached'' @ [newline] @ ''emulator-5556'' @ [tab] @ ''offline'' @ [newline]"

definition replacedShell :: "event list \<Rightarrow> string \<Rightarrow> (string + string) \<times> nat" where
  "replacedShell tr cmd =
     (if length tr < 6 then healthyShell tr cmd
      else if cmd = ''adb devices'' then (Inr offlineListing, 20)
      else (Inl ''error: device offline'', 5))"

text \<open>The Android context on that host, with \<^verbatim>\<open>ANDROID_EMULATOR_RETRIES=0\<close>.\<close>

definition replacedContext :: Context where
  "replacedContext =
     (androidContext (Some ''Pixel_6_API_34'') replacedShell)
       \<lparr>envNumber := (\<lambda>k. if k = ''ANDROID_EMULATOR_RETRIES'' then Some 0 else None)\<rparr>"

text \<open>
  The events of attempt number \<open>k\<close> of the retry loop and of what follows it: the
  events the start-or-heal sequence adds, the restart of the adb server, and, when another
  attempt follows (\<open>k < r\<close>), the backoff sleep.
\<close>

definition attemptEvents :: "Context \<Rightarrow> Service \<Rightarrow> nat \<Rightarrow> event list" where
  "attemptEvents c s k =
     drop (length (trace (attemptStart c s k)))
          (trace (snd (startOrHealAndroid c (attemptStart c s k))))"

definition restartEvent :: "Context \<Rightarrow> Service \<Rightarrow> nat \<Rightarrow> event" where
  "restartEvent c s k =
     Exec ''adb start-server''
       (fst (shell c (trace (snd (startOrHealAndroid c (attemptStart c s k)))) ''adb start-server''))"

definition attemptBlock :: "Context \<Rightarrow> Service \<Rightarrow> nat \<Rightarrow> nat \<Rightarrow> event list" where
  "attemptBlock c s r k =
     attemptEvents c s k @ [restartEvent c s k] @ (if k < r then [Sleep (1500 * (int k + 1))] else [])"

section \<open>Properties of the locator model\<close>

lemma replaceAll_Nil: "replaceAll c r [] = []" by (simp add: replaceAll_def)
lemma replaceAll_Cons: "replaceAll c r (x # xs) = (if x = c then r else [x]) @ replaceAll c r xs"
  by (simp add: replaceAll_def)
lemma replaceAll_append: "replaceAll c r (a @ b) = replaceAll c r a @ replaceAll c r b"
  by (simp add: replaceAll_def)

lemma readBody_escJava:
  "list_all (\<lambda>c. \<not> isLineTerminator c) s \<Longrightarrow>
   readBody (replaceAll dquote [backslash, dquote] (replaceAll backslash [backslash, backslash] s) @ dquote # rest) = Some (s, rest)"
  by (induction s) (auto simp: replaceAll_Cons replaceAll_append replaceAll_Nil unescape_def isLineTerminator_def)

lemma readBody_escNS:
  "list_all (\<lambda>c. \<not> isLineTerminator c \<and> c \<noteq> backslash) s \<Longrightarrow>
   readBody (replaceAll dquote [backslash, dquote] s @ dquote # rest) = Some (s, rest)"
  by (induction s) (auto simp: replaceAll_Cons replaceAll_append replaceAll_Nil unescape_def isLineTerminator_def)

lemma readLiteral_quoteJava:
  assumes "androidText s"
  shows "readLiteral (quoteJava s @ rest) = Some (s, rest)"
proof -
  have "list_all (\<lambda>c. \<not> isLineTerminator c) s"
    using assms by (induction s) (auto simp: androidText_def ordinaryChar_def isLineTerminator_def)
  from readBody_escJava[OF this] show ?thesis
    by (simp add: readLiteral_def quoteJava_def)
qed

lemma readLiteral_quoteNS:
  assumes "iosText s"
  shows "readLiteral (quoteNS s @ rest) = Some (s, rest)"
proof -
  have "list_all (\<lambda>c. \<not> isLineTerminator c \<and> c \<noteq> backslash) s"
    using assms by (induction s) (auto simp: iosText_def ordinaryChar_def isLineTerminator_def)
  from readBody_escNS[OF this] show ?thesis
    by (simp add: readLiteral_def quoteNS_def)
qed

lemma trim_id: "s \<noteq> [] \<Longrightarrow> \<not> isSpace (hd s) \<Longrightarrow> \<not> isSpace (last s) \<Longrightarrow> trim s = s"
proof -
  assume a: "s \<noteq> []" "\<not> isSpace (hd s)" "\<not> isSpace (last s)"
  have 1: "dropWhile isSpace s = s" using a by (cases s) auto
  obtain xs x where s: "s = xs @ [x]" using a(1) by (cases s rule: rev_cases) auto
  have 2: "dropWhile isSpace (rev s) = rev s" using a(3) by (simp add: s)
  show ?thesis by (simp only: trim_def 1 2 rev_rev_ident)
qed

lemma stripPrefix_append: "stripPrefix p (p @ r) = Some r"
  by (simp add: stripPrefix_def startsWith_def)

lemma normalizeList_single:
  "s \<noteq> [] \<Longrightarrow> \<not> isSpace (hd s) \<Longrightarrow> \<not> isSpace (last s) \<Longrightarrow>
   normalizeList (Some (One (Str s))) = Some [s]"
  by (simp add: normalizeList_def normalizeOne_def trim_id)

lemma android_byTextExact:
  "android (byTextExact t) = Some [''android=new UiSelector().text('' @ quoteJava t @ '')'']"
  by (simp add: byTextExact_def newPageElement_def toAndroidUIA_def normalizeList_single isSpace_def)

lemma android_byTextContains:
  "android (byTextContains t) = Some [''android=new UiSelector().textContains('' @ quoteJava t @ '')'']"
  by (simp add: byTextContains_def newPageElement_def toAndroidUIA_def normalizeList_single isSpace_def)

lemma ios_byTextExact:
  "ios (byTextExact t) = Some [''-ios predicate string:name == '' @ quoteNS t @ '' OR label == '' @ quoteNS t @ '' OR value == '' @ quoteNS t]"
  by (simp add: byTextExact_def newPageElement_def toIOSPredicate_def normalizeList_single isSpace_def quoteNS_def)

lemma ios_byTextContains:
  "ios (byTextContains t) = Some [''-ios predicate string:name CONTAINS '' @ quoteNS t @ '' OR label CONTAINS '' @ quoteNS t @ '' OR value CONTAINS '' @ quoteNS t]"
  by (simp add: byTextContains_def newPageElement_def toIOSPredicate_def normalizeList_single isSpace_def quoteNS_def)

lemma parseUiSelectorCall_quoteJava:
  assumes "androidText t"
  shows "parseUiSelectorCall m (''android=new UiSelector().'' @ m @ ''('' @ quoteJava t @ '')'') = Some t"
proof -
  have "stripPrefix (''android=new UiSelector().'' @ m @ ''('') ((''android=new UiSelector().'' @ m @ ''('') @ (quoteJava t @ '')'')) = Some (quoteJava t @ '')'')"
    by (rule stripPrefix_append)
  then show ?thesis
    by (simp add: parseUiSelectorCall_def readLiteral_quoteJava[OF assms])
qed

lemma parsePredicate_quoteNS:
  assumes "iosText t"
  shows "parsePredicate opr (''-ios predicate string:name '' @ opr @ '' '' @ quoteNS t @ '' OR label '' @ opr @ '' '' @ quoteNS t @ '' OR value '' @ opr @ '' '' @ quoteNS t) = Some (t, t, t)"
proof -
  let ?r1 = "quoteNS t @ '' OR label '' @ opr @ '' '' @ quoteNS t @ '' OR value '' @ opr @ '' '' @ quoteNS t"
  let ?r3 = "quoteNS t @ '' OR value '' @ opr @ '' '' @ quoteNS t"
  have 1: "stripPrefix (''-ios predicate string:name '' @ opr @ '' '') ((''-ios predicate string:name '' @ opr @ '' '') @ ?r1) = Some ?r1"
    by (rule stripPrefix_append)
  have 2: "stripPrefix ('' OR label '' @ opr @ '' '') (('' OR label '' @ opr @ '' '') @ ?r3) = Some ?r3"
    by (rule stripPrefix_append)
  have 3: "stripPrefix ('' OR value '' @ opr @ '' '') (('' OR value '' @ opr @ '' '') @ quoteNS t) = Some (quoteNS t)"
    by (rule stripPrefix_append)
  have 4: "readLiteral (quoteNS t) = Some (t, [])"
    using readLiteral_quoteNS[OF assms, of "[]"] by simp
  show ?thesis
    using 1 2 3 4 by (simp add: parsePredicate_def readLiteral_quoteNS[OF assms])
qed

text \<open>
  Claim C5. For a text of ordinary characters, embedded double quotes and (Android
  dialect) embedded backslashes, the exact-text and contains-text factories put one
  selector in the Android bucket and one in the iOS bucket; each selector is accepted by
  the reader of its dialect, and the literal read back is the original text: the Android
  round trip goes through \<^const>\<open>quoteJava\<close>, the iOS one (texts without a backslash)
  through \<^const>\<open>quoteNS\<close>.
\<close>

theorem text_factories_round_trip:
  assumes "androidText text"
  shows "map_option (map (parseUiSelectorCall ''text'')) (android (byTextExact text)) = Some [Some text]
       \<and> map_option (map (parseUiSelectorCall ''textContains'')) (android (byTextContains text)) = Some [Some text]
       \<and> readLiteral (quoteJava text) = Some (text, [])
       \<and> (iosText text \<longrightarrow>
            map_option (map (parsePredicate ''=='')) (ios (byTextExact text)) = Some [Some (text, text, text)]
          \<and> map_option (map (parsePredicate ''CONTAINS'')) (ios (byTextContains text)) = Some [Some (text, text, text)]
          \<and> readLiteral (quoteNS text) = Some (text, []))"
proof -
  have a1: "parseUiSelectorCall ''text'' (''android=new UiSelector().text('' @ quoteJava text @ '')'') = Some text"
    using parseUiSelectorCall_quoteJava[OF assms, of "''text''"] by simp
  have a2: "parseUiSelectorCall ''textContains'' (''android=new UiSelector().textContains('' @ quoteJava text @ '')'') = Some text"
    using parseUiSelectorCall_quoteJava[OF assms, of "''textContains''"] by simp
  have a3: "readLiteral (quoteJava text) = Some (text, [])"
    using readLiteral_quoteJava[OF assms, of "[]"] by simp
  have i: "map_option (map (parsePredicate ''=='')) (ios (byTextExact text)) = Some [Some (text, text, text)]
          \<and> map_option (map (parsePredicate ''CONTAINS'')) (ios (byTextContains text)) = Some [Some (text, text, text)]
          \<and> readLiteral (quoteNS text) = Some (text, [])" if h: "iosText text"
  proof -
    have i1: "parsePredicate ''=='' (''-ios predicate string:name == '' @ quoteNS text @ '' OR label == '' @ quoteNS text @ '' OR value == '' @ quoteNS text) = Some (text, text, text)"
      using parsePredicate_quoteNS[OF h, of "''==''"] by simp
    have i2: "parsePredicate ''CONTAINS'' (''-ios predicate string:name CONTAINS '' @ quoteNS text @ '' OR label CONTAINS '' @ quoteNS text @ '' OR value CONTAINS '' @ quoteNS text) = Some (text, text, text)"
      using parsePredicate_quoteNS[OF h, of "''CONTAINS''"] by simp
    have i3: "readLiteral (quoteNS text) = Some (text, [])"
      using readLiteral_quoteNS[OF h, of "[]"] by simp
    show ?thesis by (simp only: ios_byTextExact ios_byTextContains i1 i2 i3 option.map list.map simp_thms)
  qed
  have a: "map_option (map (parseUiSelectorCall ''text'')) (android (byTextExact text)) = Some [Some text]
       \<and> map_option (map (parseUiSelectorCall ''textContains'')) (android (byTextContains text)) = Some [Some text]"
    by (simp only: android_byTextExact android_byTextContains a1 a2 option.map list.map simp_thms)
  from a a3 i show ?thesis by blast
qed

theorem text_factories_round_trip_witness:
  "androidText [CHR ''a'', dquote, CHR ''b''] \<and> iosText [CHR ''a'', dquote, CHR ''b''] \<and>
   android (byTextExact [CHR ''a'', dquote, CHR ''b'']) = Some [''android=new UiSelector().text('' @ [dquote, CHR ''a'', backslash, dquote, CHR ''b'', dquote] @ '')''] \<and>
   map_option (map (parseUiSelectorCall ''text'')) (android (byTextExact [CHR ''a'', dquote, CHR ''b''])) = Some [Some [CHR ''a'', dquote, CHR ''b'']] \<and>
   map_option (map (parsePredicate ''=='')) (ios (byTextExact [CHR ''a'', dquote, CHR ''b''])) = Some [Some ([CHR ''a'', dquote, CHR ''b''], [CHR ''a'', dquote, CHR ''b''], [CHR ''a'', dquote, CHR ''b''])]"
proof -
  have h: "androidText [CHR ''a'', dquote, CHR ''b'']"
    by (simp add: androidText_def ordinaryChar_def isLineTerminator_def)
  have h2: "iosText [CHR ''a'', dquote, CHR ''b'']"
    by (simp add: iosText_def ordinaryChar_def isLineTerminator_def)
  have 3: "android (byTextExact [CHR ''a'', dquote, CHR ''b'']) = Some [''android=new UiSelector().text('' @ [dquote, CHR ''a'', backslash, dquote, CHR ''b'', dquote] @ '')'']"
    by (simp add: android_byTextExact quoteJava_def replaceAll_def)
  show ?thesis
    using text_factories_round_trip[OF h] h h2 3 by simp
qed

text \<open>
  Claim C3. The claim states the order of the fallback line of \<^const>\<open>toSelector\<close>: android,
  then ios, then universal. The method does not follow it. With a driver registered whose
  two platform flags are both false the platform is unknown, and an element that has an
  android bucket and a universal bucket resolves to the universal entry, not to the android
  entry: \<^const>\<open>selectors\<close> already returns the universal bucket, so the early return takes
  its head and the fallback line is reached only when the universal bucket is empty. For
  every element the result on such a driver is the first universal entry, else the first
  android entry, else the first ios entry, else null.
\<close>

theorem toSelector_unknown_platform_universal_first:
  "getPlatform (Some \<lparr>isAndroid = False, isIOS = False\<rparr>) = None \<and>
   toSelector (Some \<lparr>isAndroid = False, isIOS = False\<rparr>)
     \<lparr>android = Some [''~login''], ios = None, universal = Some [''//button'']\<rparr> = Some ''//button'' \<and>
   toSelector (Some \<lparr>isAndroid = False, isIOS = False\<rparr>)
     \<lparr>android = Some [''~login''], ios = None, universal = Some [''//button'']\<rparr> \<noteq> Some ''~login'' \<and>
   toSelector (Some \<lparr>isAndroid = False, isIOS = False\<rparr>) pe =
     orElse (first (universal pe)) (orElse (first (android pe)) (first (ios pe)))"
proof -
  have "toSelector (Some \<lparr>isAndroid = False, isIOS = False\<rparr>) pe =
          orElse (first (universal pe)) (orElse (first (android pe)) (first (ios pe)))"
    by (cases "universal pe"; cases "android pe"; cases "ios pe")
       (auto simp: toSelector_def selectors_def getPlatform_def first_def orElse_def entries_def
             split: list.splits)
  then show ?thesis
    by (simp add: toSelector_def selectors_def getPlatform_def entries_def)
qed

lemma entries_pushBucket: "entries (snd (pushBucket b inp)) = entries b @ added inp"
  by (auto simp: pushBucket_def added_def entries_def split: option.splits)

lemma fst_pushBucket: "fst (pushBucket b inp) = (if throws inp then Some TypeError else None)"
  by (auto simp: pushBucket_def throws_def split: option.splits)

lemma withFallbacks_android:
  "entries (android (snd (withFallbacks fb pe))) = entries (android pe) @ appendedAndroid fb"
  using entries_pushBucket[of "android pe" "Option.bind fb opt_android"]
  by (auto simp: withFallbacks_def appendedAndroid_def split: prod.splits option.splits)

lemma withFallbacks_ios:
  "entries (ios (snd (withFallbacks fb pe))) = entries (ios pe) @ appendedIOS fb"
  using entries_pushBucket[of "ios pe" "Option.bind fb opt_ios"]
        fst_pushBucket[of "android pe" "Option.bind fb opt_android"]
  by (auto simp: withFallbacks_def appendedIOS_def split: prod.splits option.splits if_splits)

lemma withFallbacks_universal:
  "entries (universal (snd (withFallbacks fb pe))) = entries (universal pe) @ appendedUniversal fb"
  using entries_pushBucket[of "universal pe" "Option.bind fb opt_universal"]
        fst_pushBucket[of "android pe" "Option.bind fb opt_android"]
        fst_pushBucket[of "ios pe" "Option.bind fb opt_ios"]
  by (auto simp: withFallbacks_def appendedUniversal_def split: prod.splits option.splits if_splits)

lemma withFallbacks_bucket:
  "entries (bucketOf p (snd (withFallbacks fb pe))) = entries (bucketOf p pe) @ appendedTo p fb"
  by (cases p) (simp_all add: bucketOf_def appendedTo_def withFallbacks_android withFallbacks_ios)

lemma withFallbacksSeq_bucket:
  "entries (bucketOf p (withFallbacksSeq calls pe)) = entries (bucketOf p pe) @ concat (map (appendedTo p) calls)"
  by (induction calls arbitrary: pe) (simp_all add: withFallbacksSeq_def withFallbacks_bucket)

lemma withFallbacksSeq_universal:
  "entries (universal (withFallbacksSeq calls pe)) = entries (universal pe) @ concat (map appendedUniversal calls)"
  by (induction calls arbitrary: pe) (simp_all add: withFallbacksSeq_def withFallbacks_universal)

lemma selectors_known:
  "getPlatform driver = Some p \<Longrightarrow> selectors driver pe = entries (bucketOf p pe) @ entries (universal pe)"
  by (cases p) (simp_all add: selectors_def bucketOf_def)

text \<open>
  Claim C4. For a known platform, \<^const>\<open>selectors\<close> returns exactly the entries of the
  platform bucket followed by the entries of the universal bucket. After any sequence of
  \<^const>\<open>withFallbacks\<close> calls the same holds, each bucket being its original entries
  followed by what the calls appended, in call order.
\<close>

theorem selectors_platform_before_universal:
  assumes "getPlatform driver = Some p"
  shows "selectors driver pe = entries (bucketOf p pe) @ entries (universal pe)
       \<and> selectors driver (withFallbacksSeq calls pe) =
           (entries (bucketOf p pe) @ concat (map (appendedTo p) calls)) @
           (entries (universal pe) @ concat (map appendedUniversal calls))"
  by (simp only: selectors_known[OF assms] withFallbacksSeq_bucket withFallbacksSeq_universal simp_thms)

theorem selectors_platform_before_universal_witness:
  "getPlatform (Some \<lparr>isAndroid = True, isIOS = False\<rparr>) = Some Android \<and>
   selectors (Some \<lparr>isAndroid = True, isIOS = False\<rparr>)
     (withFallbacksSeq
        [Some \<lparr>opt_android = Some (Many [Str ''~x'', Str ''  ~y '']), opt_ios = None,
               opt_universal = Some (One (Str ''~z''))\<rparr>]
        \<lparr>android = Some [''android=a''], ios = None, universal = Some [''//u'']\<rparr>)
   = [''android=a'', ''~x'', ''~y'', ''//u'', ''~z'']"
proof -
  have h: "getPlatform (Some \<lparr>isAndroid = True, isIOS = False\<rparr>) = Some Android"
    by (simp add: getPlatform_def)
  show ?thesis
    using selectors_platform_before_universal[OF h,
      of "\<lparr>android = Some [''android=a''], ios = None, universal = Some [''//u'']\<rparr>"
         "[Some \<lparr>opt_android = Some (Many [Str ''~x'', Str ''  ~y '']), opt_ios = None,
               opt_universal = Some (One (Str ''~z''))\<rparr>]"] h
    by (simp add: bucketOf_def appendedTo_def appendedAndroid_def appendedUniversal_def added_def
        throws_def truthy_def normalizeList_def normalizeOne_def trim_def isSpace_def entries_def)
qed

section \<open>Properties of the device lifecycle manager\<close>

declare ensureAndroidReadyFrom.simps [simp del]

lemma ensureAndroidReadyFrom_skip:
  assumes "startOrHealAndroid c s = (Inr (), s)"
  shows "ensureAndroidReadyFrom c r a s = (Inr (), s)"
  by (subst ensureAndroidReadyFrom.simps) (simp add: assms)

text \<open>
  Claim C10. When neither the \<^verbatim>\<open>avdName\<close> option nor \<^verbatim>\<open>ANDROID_EMULATOR_NAME\<close> is
  set, the Android ensure-ready entry point returns successfully and leaves the service
  exactly as it was: nothing is added to the trace (no listing, health-check or boot
  command, no sleep) and the started flag keeps its value.
\<close>

theorem ensureReady_without_avd_name:
  assumes "Option.bind (opts_android (opts c)) avdName = None"
      and "env c ''ANDROID_EMULATOR_NAME'' = None"
  shows "ensureAndroidReadyWithRetry c s = (Inr (), s)
       \<and> trace (snd (ensureAndroidReadyWithRetry c s)) = trace s
       \<and> started (snd (ensureAndroidReadyWithRetry c s)) = started s"
proof -
  have "startOrHealAndroid c s = (Inr (), s)"
    using assms by (simp add: startOrHealAndroid_def configuredAvdName_def orTruthy_def falsy_def)
  then have "ensureAndroidReadyWithRetry c s = (Inr (), s)"
    by (simp add: ensureAndroidReadyWithRetry_def ensureAndroidReadyFrom_skip)
  then show ?thesis by simp
qed

theorem ensureReady_without_avd_name_witness:
  "Option.bind (opts_android (opts (androidContext None healthyShell))) avdName = None
   \<and> env (androidContext None healthyShell) ''ANDROID_EMULATOR_NAME'' = None
   \<and> ensureAndroidReadyWithRetry (androidContext None healthyShell) (newService 0)
       = (Inr (), \<lparr>androidSerial = None, iosUdid = None, started = False, trace = [], now = 0\<rparr>)"
  using ensureReady_without_avd_name[of "androidContext None healthyShell" "newService 0"]
  by (simp add: androidContext_def newService_def)

lemma extendsWith_refl: "extendsWith P s s"
  by (simp add: extendsWith_def)

lemma extendsWith_trans: "extendsWith P s s1 \<Longrightarrow> extendsWith P s1 s2 \<Longrightarrow> extendsWith P s s2"
  by (auto simp: extendsWith_def)

lemma extendsWith_exec:
  assumes "\<And>out. P (Exec cmd out)" and "exec c cmd s = (r, s')"
  shows "extendsWith P s s'"
  using assms by (auto simp: extendsWith_def exec_def split: prod.splits)

lemma extendsWith_sleep: "P (Sleep ms) \<Longrightarrow> extendsWith P s (sleep ms s)"
  by (simp add: extendsWith_def sleep_def)

lemma extendsWith_adbDevices:
  assumes "\<And>out. P (Exec ''adb devices'' out)" and "adbDevices c s = (r, s')"
  shows "extendsWith P s s'"
  using assms extendsWith_exec[of P "''adb devices''" c s]
  by (auto simp: adbDevices_def split: prod.splits sum.splits)

lemma isAndroidHealthy_extends:
  assumes "isAndroidHealthy c serial s = (ok, s')"
  shows "extendsWith (listingOrHealthCheck serial) s s'"
proof -
  let ?P = "listingOrHealthCheck serial"
  have ex: "\<And>cmd t r t'. (\<And>out. ?P (Exec cmd out)) \<Longrightarrow> extendsWith ?P s t \<Longrightarrow> exec c cmd t = (r, t') \<Longrightarrow> extendsWith ?P s t'"
    using extendsWith_exec extendsWith_trans by blast
  have sl: "\<And>ms t. extendsWith ?P s t \<Longrightarrow> extendsWith ?P s (sleep ms t)"
    using extendsWith_sleep[of ?P] extendsWith_trans[of ?P] by (simp add: listingOrHealthCheck_def)
  obtain r1 s1 where 1: "exec c ''adb devices'' s = (r1, s1)" by force
  obtain r2 s2 where 2: "exec c (adbCmd serial [''get-state'']) s1 = (r2, s2)" by force
  obtain r3 s3 where 3: "exec c (adbCmd serial [''shell'', ''getprop'', ''ro.build.version.release'']) s2 = (r3, s3)" by force
  obtain r4 s4 where 4: "exec c (adbCmd serial [''shell'', ''pm'', ''path'', ''android'']) s3 = (r4, s4)" by force
  obtain r5 s5 where 5: "exec c (adbCmd serial [''shell'', ''getprop'', ''sys.boot_completed'']) s4 = (r5, s5)" by force
  obtain r6 s6 where 6: "exec c (adbCmd serial [''shell'', ''getprop'', ''sys.boot_completed'']) (sleep (healthInterval c) s5) = (r6, s6)" by force
  have e1: "extendsWith ?P s s1" using ex[OF _ extendsWith_refl 1] by (simp add: listingOrHealthCheck_def)
  have e2: "extendsWith ?P s s2" using ex[OF _ e1 2] by (simp add: listingOrHealthCheck_def)
  have e3: "extendsWith ?P s s3" using ex[OF _ e2 3] by (simp add: listingOrHealthCheck_def)
  have e4: "extendsWith ?P s s4" using ex[OF _ e3 4] by (simp add: listingOrHealthCheck_def)
  have e5: "extendsWith ?P s s5" using ex[OF _ e4 5] by (simp add: listingOrHealthCheck_def)
  have e6: "extendsWith ?P s s6" using ex[OF _ sl[OF e5] 6] by (simp add: listingOrHealthCheck_def)
  have "s' \<in> {s1, s2, s3, s4, s5, s6}"
    using assms 1 2 3 4 5 6
    by (auto simp: isAndroidHealthy_def adbDevices_def execAdb_def Let_def split: sum.splits if_splits)
  with e1 e2 e3 e4 e5 e6 show ?thesis by auto
qed


lemmas run_defs = adbDevices_def execAdb_def adbCmd_def exec_def settle_def parseDevices_def trim_def
  isSpace_def sleep_def tryAdbRestart_def trimmedOrEmpty_def hasPackage_def startsWith_def
  isEmulator_def healthInterval_def configuredAvdName_def orTruthy_def falsy_def emulatorRetries_def

lemma dead_attempt:
  "startOrHealAndroid (androidContext (Some ''Pixel_6_API_34'') deadShell) s =
     (Inl (Error ''error: closed''),
      s\<lparr>trace := trace s @ [Exec ''adb devices'' (Inl ''error: closed'')], now := now s + 5\<rparr>)"
  by (simp add: startOrHealAndroid_def androidContext_def deadShell_def run_defs)



lemmas ios_run_defs = startIOS_def resolveTargetUdid_def isBooted_def exec_def settle_def orTruthy_def
  falsy_def iosContext_def bootedShell_def bootedQuery_def sampleUdid_def newService_def startsWith_def

text \<open>
  Claim C9. On a macOS host whose configured simulator is already booted, the pre-run hook
  issues one booted-status query and no boot command, and records the UDID, but it leaves
  the started flag false, where the claim has it set. The post-run hook then returns at
  once, although the options ask for the simulator to be shut down on completion and
  \<^const>\<open>stopIOS\<close> on the same state would issue the shutdown.
\<close>

theorem startIOS_already_booted_not_started:
  "fst (isBooted (iosContext (Some sampleUdid) bootedShell) sampleUdid (newService 0)) = True
   \<and> onPrepare (iosContext (Some sampleUdid) bootedShell) (newService 0) =
       (Inr (), \<lparr>androidSerial = None, iosUdid = Some sampleUdid, started = False,
                 trace = [Exec (bootedQuery sampleUdid)
                           (Inr (''    iPhone 15 ('' @ sampleUdid @ '') (Booted)'' @ [newline]))],
                 now = 40\<rparr>)
   \<and> Option.bind (opts_ios (opts (iosContext (Some sampleUdid) bootedShell))) ios_killOnComplete = Some True
   \<and> onComplete (iosContext (Some sampleUdid) bootedShell)
        (snd (onPrepare (iosContext (Some sampleUdid) bootedShell) (newService 0))) =
       snd (onPrepare (iosContext (Some sampleUdid) bootedShell) (newService 0))
   \<and> trace (stopIOS (iosContext (Some sampleUdid) bootedShell)
        (snd (onPrepare (iosContext (Some sampleUdid) bootedShell) (newService 0)))) =
       [Exec (bootedQuery sampleUdid)
          (Inr (''    iPhone 15 ('' @ sampleUdid @ '') (Booted)'' @ [newline])),
        Exec (''xcrun simctl shutdown '' @ sampleUdid) (Inl ''Command failed'')]"
  by (simp add: onPrepare_def onComplete_def stopIOS_def ios_run_defs)

section \<open>Properties of the diagnostics collector\<close>

declare show_nat.simps [simp del]

lemma show_nat_50000: "show_nat 50000 = ''50000''"
  by (simp add: show_nat.simps[of 50000] show_nat.simps[of 5000] show_nat.simps[of 500]
      show_nat.simps[of 50] show_nat.simps[of 5] digit_def)

lemma pageSource_addNote: "b_pageSource (addNote m b) = b_pageSource b"
  by (simp add: addNote_def)

lemma pageSource_readAndroidPermissions: "b_pageSource (readAndroidPermissions d h p b) = b_pageSource b"
  by (simp add: readAndroidPermissions_def pageSource_addNote split: sum.splits prod.splits)

lemma pageSource_readTcc: "b_pageSource (readTcc h u bid b) = b_pageSource b"
  by (simp add: readTcc_def Let_def pageSource_addNote split: sum.splits)

lemma pageSource_collectAndroid: "b_pageSource (collectAndroid d h po b) = b_pageSource b"
  by (simp add: collectAndroid_def Let_def pageSource_addNote pageSource_readAndroidPermissions
      split: option.splits)

lemma pageSource_collectIOS: "b_pageSource (collectIOS d h po b) = b_pageSource b"
  by (simp add: collectIOS_def Let_def pageSource_addNote pageSource_readTcc split: option.splits)

lemma pageSource_collect:
  "b_pageSource (collectFailureBundle d h po) =
     (if includePageSource po = Some False then None
      else (case getPageSource d of
              Inl _ \<Rightarrow> None
            | Inr src \<Rightarrow> Some (truncateSource (case maxSourceLength po of None \<Rightarrow> 250000 | Some n \<Rightarrow> n) src)))"
  by (simp add: collectFailureBundle_def Let_def pageSource_collectAndroid pageSource_collectIOS pageSource_addNote
      split: option.splits sum.splits)

text \<open>
  Claim C8. When the page source is read and is longer than the maximum length \<open>m\<close>
  (the option, default 250 000), the bundle stores its first \<open>m\<close> characters followed by
  the marker \<^verbatim>\<open>\n/* truncated k chars */\<close> with \<open>k\<close> the number of characters cut; a
  source of at most \<open>m\<close> characters is stored unchanged. A source of 300 000 characters
  against the cap of 250 000 keeps 250 000 characters and the marker names 50 000.
\<close>

theorem pageSource_truncation:
  assumes "includePageSource po \<noteq> Some False" and "getPageSource d = Inr src"
      and "(case maxSourceLength po of None \<Rightarrow> 250000 | Some n \<Rightarrow> n) = int m"
  shows "b_pageSource (collectFailureBundle d h po) =
           Some (if m < length src
                 then take m src @ [newline] @ ''/* truncated '' @ show_nat (length src - m) @ '' chars */''
                 else src)
       \<and> (length src = 300000 \<and> m = 250000 \<longrightarrow>
            b_pageSource (collectFailureBundle d h po) =
              Some (take 250000 src @ [newline] @ ''/* truncated 50000 chars */'')
          \<and> length (take 250000 src) = 250000)"
proof -
  have 1: "b_pageSource (collectFailureBundle d h po) = Some (truncateSource (int m) src)"
    using assms by (simp add: pageSource_collect)
  have 2: "truncateSource (int m) src =
           (if m < length src
            then take m src @ [newline] @ ''/* truncated '' @ show_nat (length src - m) @ '' chars */''
            else src)"
    by (simp add: truncateSource_def slice0_def show_int_def nat_diff_distrib' del: of_nat_diff)
  show ?thesis using 1 2 by (simp add: show_nat_50000)
qed

theorem pageSource_truncation_witness:
  "includePageSource packageOpts \<noteq> Some False
   \<and> getPageSource longSourceDriver = Inr (replicate 300000 (CHR ''x''))
   \<and> (case maxSourceLength packageOpts of None \<Rightarrow> 250000 | Some n \<Rightarrow> n) = int 250000
   \<and> b_pageSource (collectFailureBundle longSourceDriver plainHost packageOpts) =
       Some (replicate 250000 (CHR ''x'') @ [newline] @ ''/* truncated 50000 chars */'')"
proof -
  have a: "includePageSource packageOpts \<noteq> Some False" by (simp add: packageOpts_def)
  have b: "getPageSource longSourceDriver = Inr (replicate 300000 (CHR ''x''))"
    by (simp add: longSourceDriver_def)
  have c: "(case maxSourceLength packageOpts of None \<Rightarrow> 250000 | Some n \<Rightarrow> n) = int 250000"
    by (simp add: packageOpts_def)
  show ?thesis
    using pageSource_truncation[OF a b c, of plainHost] a b c by (simp add: show_nat_50000)
qed

lemma notes_addNote: "b_notes (addNote m b) = b_notes b @ [m]"
  by (simp add: addNote_def)

lemma fields_addNote:
  "b_context (addNote m b) = b_context b" "b_contexts (addNote m b) = b_contexts b"
  "b_windowRect (addNote m b) = b_windowRect b" "b_permissions (addNote m b) = b_permissions b"
  "b_app (addNote m b) = b_app b"
  by (simp_all add: addNote_def)

lemma fields_readAndroidPermissions:
  "b_context (readAndroidPermissions d h p b) = b_context b"
  "b_contexts (readAndroidPermissions d h p b) = b_contexts b"
  "b_windowRect (readAndroidPermissions d h p b) = b_windowRect b"
  "b_app (readAndroidPermissions d h p b) = b_app b"
  by (simp_all add: readAndroidPermissions_def fields_addNote split: sum.splits prod.splits)

lemma fields_readTcc:
  "b_context (readTcc h u bid b) = b_context b"
  "b_contexts (readTcc h u bid b) = b_contexts b"
  "b_windowRect (readTcc h u bid b) = b_windowRect b"
  "b_app (readTcc h u bid b) = b_app b"
  by (simp_all add: readTcc_def Let_def fields_addNote split: sum.splits)

lemma fields_collectAndroid:
  "b_context (collectAndroid d h po b) = b_context b"
  "b_contexts (collectAndroid d h po b) = b_contexts b"
  "b_windowRect (collectAndroid d h po b) = b_windowRect b"
  by (simp_all add: collectAndroid_def Let_def fields_addNote fields_readAndroidPermissions split: option.splits)

lemma fields_collectIOS:
  "b_context (collectIOS d h po b) = b_context b"
  "b_contexts (collectIOS d h po b) = b_contexts b"
  "b_windowRect (collectIOS d h po b) = b_windowRect b"
  by (simp_all add: collectIOS_def Let_def fields_addNote fields_readTcc split: option.splits)

lemma fields_collect:
  "b_context (collectFailureBundle d h po) = returned (getContext d)"
  "b_contexts (collectFailureBundle d h po) = returned (getContexts d)"
  "b_windowRect (collectFailureBundle d h po) = (case getWindowRect d of Inl _ \<Rightarrow> None | Inr r \<Rightarrow> Some r)"
  by (simp_all add: collectFailureBundle_def Let_def fields_collectAndroid fields_collectIOS fields_addNote
      split: sum.splits)

lemma notes_readAndroidPermissions:
  "b_notes (readAndroidPermissions d h p b) =
     b_notes b @ (case mobileShell d ''dumpsys'' [''package'', p] of
                    Inl msg \<Rightarrow> [''android dumpsys parse failed: '' @ msg] | Inr _ \<Rightarrow> [])"
  by (simp add: readAndroidPermissions_def notes_addNote split: sum.splits prod.splits)

lemma permissions_readAndroidPermissions:
  "mobileShell d ''dumpsys'' [''package'', p] = Inl msg \<Longrightarrow>
   b_permissions (readAndroidPermissions d h p b) = b_permissions b"
  by (simp add: readAndroidPermissions_def fields_addNote)

lemma notes_collectAndroid:
  "b_notes (collectAndroid d h po b) = b_notes b @ androidNotes d h po"
  by (simp add: collectAndroid_def androidNotes_def Let_def notes_addNote notes_readAndroidPermissions
      falsy_def split: option.splits)

lemma notes_collectIOS:
  "b_notes (collectIOS d h po b) = b_notes b @ iosNotes h po"
  by (simp add: collectIOS_def iosNotes_def readTcc_def tccQuery_def Let_def notes_addNote falsy_def
      split: option.splits sum.splits)

lemma notes_collect:
  "b_notes (collectFailureBundle d h po) =
     sourceNotes d po @ (if drv_isAndroid d then androidNotes d h po else iosNotes h po)"
  by (simp add: collectFailureBundle_def Let_def notes_collectAndroid notes_collectIOS notes_addNote
      sourceNotes_def split: option.splits sum.splits)

lemma permissions_collectAndroid:
  "androidNotes d h po \<noteq> [] \<Longrightarrow> b_permissions (collectAndroid d h po b) = b_permissions b"
  by (auto simp: collectAndroid_def androidNotes_def Let_def fields_addNote falsy_def
      permissions_readAndroidPermissions split: option.splits sum.splits if_splits)

lemma permissions_collectIOS:
  "iosNotes h po \<noteq> [] \<Longrightarrow> b_permissions (collectIOS d h po b) = b_permissions b"
  by (auto simp: collectIOS_def iosNotes_def readTcc_def tccQuery_def Let_def fields_addNote falsy_def
      split: option.splits sum.splits if_splits)

lemma permissions_collect:
  "(if drv_isAndroid d then androidNotes d h po else iosNotes h po) \<noteq> [] \<Longrightarrow>
   b_permissions (collectFailureBundle d h po) = None"
  by (simp add: collectFailureBundle_def Let_def permissions_collectAndroid permissions_collectIOS
      fields_addNote split: option.splits sum.splits if_splits)

lemma resolvePackage_eq:
  "resolvePackage d h po =
     (if \<not> falsy (packageId po) then packageId po
      else if \<not> falsy (returned (getCurrentPackage d)) then returned (getCurrentPackage d)
      else d_env h ''ANDROID_APP_PACKAGE'')"
  by (cases "getCurrentPackage d") (auto simp: resolvePackage_def returned_def Let_def falsy_def)

lemma app_collectAndroid:
  "b_app (collectAndroid d h po b) =
     Some \<lparr>app_packageId = resolvePackage d h po, app_bundleId = None,
           app_activity = returned (getCurrentActivity d)\<rparr>"
  by (simp add: collectAndroid_def Let_def fields_addNote fields_readAndroidPermissions split: option.splits)

lemma app_collectIOS:
  "b_app (collectIOS d h po b) =
     Some \<lparr>app_packageId = None, app_bundleId = orTruthy (bundleId po) (d_env h ''IOS_BUNDLE_ID''),
           app_activity = None\<rparr>"
  by (simp add: collectIOS_def Let_def fields_addNote fields_readTcc split: option.splits)

lemma app_collect:
  "b_app (collectFailureBundle d h po) =
     Some (if drv_isAndroid d
           then \<lparr>app_packageId = resolvePackage d h po, app_bundleId = None,
                 app_activity = returned (getCurrentActivity d)\<rparr>
           else \<lparr>app_packageId = None, app_bundleId = orTruthy (bundleId po) (d_env h ''IOS_BUNDLE_ID''),
                 app_activity = None\<rparr>)"
  by (simp add: collectFailureBundle_def Let_def app_collectAndroid app_collectIOS)

text \<open>
  Claim C7, as stated, fails: in a session whose context query, window-geometry query and
  current-activity query all throw, the bundle has these fields absent and no note at all.
\<close>

theorem collect_counterexample:
  "getContext flakyDriver = Throws ''no such context''
   \<and> getWindowRect flakyDriver = Inl ''unknown command''
   \<and> getCurrentActivity flakyDriver = Throws ''socket hang up''
   \<and> b_context (collectFailureBundle flakyDriver plainHost packageOpts) = None
   \<and> b_windowRect (collectFailureBundle flakyDriver plainHost packageOpts) = None
   \<and> b_notes (collectFailureBundle flakyDriver plainHost packageOpts) = []"
  by (simp add: fields_collect notes_collect returned_def sourceNotes_def androidNotes_def
      resolvePackage_def falsy_def flakyDriver_def packageOpts_def)

text \<open>
  Claim C7, amended. \<^const>\<open>collectFailureBundle\<close> always returns a bundle, and no failing
  step stops the others. The context, the context list and the window rectangle are each
  present exactly when their own query returned. The app identity is always recorded: on
  Android the activity is present exactly when the current-activity query returned, and
  the package is the option, else what the current-package query returned, else the
  variable \<^verbatim>\<open>ANDROID_APP_PACKAGE\<close>, so that a failing query leaves it absent unless the
  variable is set; on iOS the bundle id is the option, else the variable
  \<^verbatim>\<open>IOS_BUNDLE_ID\<close>. The notes are those of the page-source dump and of the permission
  step (Android: the dump failed or no package was resolved; iOS: the table read failed or
  an identifier is missing), in this order; a failing context, geometry or app-identity
  query leaves none. When the page-source step leaves a note the page source is absent,
  and when the permission step leaves a note the permissions are absent.
\<close>

theorem collect_guards_each_step:
  "b_context (collectFailureBundle d h po) = returned (getContext d)
   \<and> b_contexts (collectFailureBundle d h po) = returned (getContexts d)
   \<and> b_windowRect (collectFailureBundle d h po) = (case getWindowRect d of Inl _ \<Rightarrow> None | Inr r \<Rightarrow> Some r)
   \<and> b_app (collectFailureBundle d h po) =
        Some (if drv_isAndroid d
              then \<lparr>app_packageId =
                      (if \<not> falsy (packageId po) then packageId po
                       else if \<not> falsy (returned (getCurrentPackage d)) then returned (getCurrentPackage d)
                       else d_env h ''ANDROID_APP_PACKAGE''),
                    app_bundleId = None,
                    app_activity = returned (getCurrentActivity d)\<rparr>
              else \<lparr>app_packageId = None,
                    app_bundleId = orTruthy (bundleId po) (d_env h ''IOS_BUNDLE_ID''),
                    app_activity = None\<rparr>)
   \<and> b_notes (collectFailureBundle d h po) =
        sourceNotes d po @ (if drv_isAndroid d then androidNotes d h po else iosNotes h po)
   \<and> (sourceNotes d po \<noteq> [] \<longrightarrow> b_pageSource (collectFailureBundle d h po) = None)
   \<and> ((if drv_isAndroid d then androidNotes d h po else iosNotes h po) \<noteq> [] \<longrightarrow>
        b_permissions (collectFailureBundle d h po) = None)"
proof -
  have "sourceNotes d po \<noteq> [] \<longrightarrow> b_pageSource (collectFailureBundle d h po) = None"
    by (simp add: pageSource_collect sourceNotes_def split: sum.splits)
  moreover have "b_context (collectFailureBundle d h po) = returned (getContext d)
      \<and> b_contexts (collectFailureBundle d h po) = returned (getContexts d)
      \<and> b_windowRect (collectFailureBundle d h po) = (case getWindowRect d of Inl _ \<Rightarrow> None | Inr r \<Rightarrow> Some r)
      \<and> b_notes (collectFailureBundle d h po) =
           sourceNotes d po @ (if drv_isAndroid d then androidNotes d h po else iosNotes h po)"
    by (simp only: fields_collect notes_collect simp_thms)
  moreover have "b_app (collectFailureBundle d h po) =
        Some (if drv_isAndroid d
              then \<lparr>app_packageId =
                      (if \<not> falsy (packageId po) then packageId po
                       else if \<not> falsy (returned (getCurrentPackage d)) then returned (getCurrentPackage d)
                       else d_env h ''ANDROID_APP_PACKAGE''),
                    app_bundleId = None,
                    app_activity = returned (getCurrentActivity d)\<rparr>
              else \<lparr>app_packageId = None,
                    app_bundleId = orTruthy (bundleId po) (d_env h ''IOS_BUNDLE_ID''),
                    app_activity = None\<rparr>)"
    by (simp only: app_collect resolvePackage_eq)
  ultimately show ?thesis
    using permissions_collect[of d h po] by blast
qed

theorem collect_guards_each_step_witness:
  "sourceNotes brokenDriver bareOpts = [''getPageSource() failed: timeout'']
   \<and> androidNotes brokenDriver plainHost bareOpts =
        [''packageId not resolved for Android (set ANDROID_APP_PACKAGE or pass opts.packageId)'']
   \<and> getCurrentPackage brokenDriver = Throws ''socket hang up''
   \<and> getCurrentActivity brokenDriver = Throws ''socket hang up''
   \<and> b_app (collectFailureBundle brokenDriver plainHost bareOpts) =
        Some \<lparr>app_packageId = None, app_bundleId = None, app_activity = None\<rparr>
   \<and> b_notes (collectFailureBundle brokenDriver plainHost bareOpts) =
        [''getPageSource() failed: timeout'',
         ''packageId not resolved for Android (set ANDROID_APP_PACKAGE or pass opts.packageId)'']
   \<and> b_pageSource (collectFailureBundle brokenDriver plainHost bareOpts) = None
   \<and> b_permissions (collectFailureBundle brokenDriver plainHost bareOpts) = None
   \<and> b_context (collectFailureBundle brokenDriver plainHost bareOpts) = None"
proof -
  have a: "sourceNotes brokenDriver bareOpts = [''getPageSource() failed: timeout'']"
    by (simp add: sourceNotes_def brokenDriver_def flakyDriver_def bareOpts_def)
  have b: "androidNotes brokenDriver plainHost bareOpts =
             [''packageId not resolved for Android (set ANDROID_APP_PACKAGE or pass opts.packageId)'']"
    by (simp add: androidNotes_def resolvePackage_def falsy_def brokenDriver_def flakyDriver_def
        bareOpts_def plainHost_def)
  have c: "drv_isAndroid brokenDriver" "getContext brokenDriver = Throws ''no such context''"
    "getCurrentPackage brokenDriver = Throws ''socket hang up''"
    "getCurrentActivity brokenDriver = Throws ''socket hang up''"
    "packageId bareOpts = None" "d_env plainHost ''ANDROID_APP_PACKAGE'' = None"
    by (simp_all add: brokenDriver_def flakyDriver_def bareOpts_def plainHost_def)
  show ?thesis
    using collect_guards_each_step[of brokenDriver plainHost bareOpts] a b c
    by (simp add: returned_def falsy_def)
qed

section \<open>The lifecycle invariant\<close>

lemma confirmedDevice_append: "confirmedDevice dev tr \<Longrightarrow> confirmedDevice dev (tr @ ext)"
proof (induction rule: confirmedDevice.induct)
  case (android_healthy dev evs before after)
  from confirmedDevice.android_healthy[OF this, of before "after @ ext"] show ?case by simp
next
  case (ios_booted dev evs before after)
  from confirmedDevice.ios_booted[OF this, of before "after @ ext"] show ?case by simp
qed

lemma keeps_refl: "keeps s s"
  by (simp add: keeps_def)

lemma keeps_trans: "keeps s t \<Longrightarrow> keeps t u \<Longrightarrow> keeps s u"
  by (auto simp: keeps_def)

lemma keeps_advances: "keeps s t \<Longrightarrow> advances s t"
  by (auto simp: keeps_def advances_def)

lemma keeps_then_advances: "keeps s t \<Longrightarrow> advances t u \<Longrightarrow> advances s u"
  by (auto simp: keeps_def advances_def)

lemma keeps_then_outcome:
  "keeps s t \<Longrightarrow> advances t u \<and> (isl r \<longrightarrow> keeps t u) \<Longrightarrow> advances s u \<and> (isl r \<longrightarrow> keeps s u)"
  using keeps_then_advances keeps_trans by blast

lemma extendsWith_keeps: "extendsWith P s s' \<Longrightarrow> keeps s s'"
  by (auto simp: extendsWith_def keeps_def identified_def)

lemma extendsWith_advances: "extendsWith P s s' \<Longrightarrow> advances s s'"
  by (rule keeps_advances) (rule extendsWith_keeps)

lemma exec_eq:
  "exec c cmd s =
     (settle (fst (shell c (trace s) cmd)),
      s\<lparr>trace := trace s @ [Exec cmd (fst (shell c (trace s) cmd))],
        now := now s + int (snd (shell c (trace s) cmd))\<rparr>)"
  by (simp add: exec_def split: prod.splits)

lemma settle_Inr: "settle (Inr x) = Inr x" and settle_Inl: "settle (Inl m) = Inl (Error m)"
  by (simp_all add: settle_def)

lemma isAndroidHealthy_confirms:
  assumes "isAndroidHealthy c serial s = (True, s')"
  shows "\<exists>evs. trace s' = trace s @ evs \<and> healthCheckPassed serial evs"
proof (cases "fst (shell c (trace s) ''adb devices'')")
  case (Inl m)
  then show ?thesis
    using assms by (simp add: isAndroidHealthy_def adbDevices_def exec_eq settle_Inl)
next
  case (Inr out)
  then show ?thesis
    using assms
    by (auto simp add: isAndroidHealthy_def adbDevices_def execAdb_def exec_eq Let_def sleep_def
        settle_Inr split: if_splits intro: healthCheckPassed.intros)
qed

lemma healthCheckPassed_nonempty: "healthCheckPassed serial evs \<Longrightarrow> serial \<noteq> []"
  by (induction rule: healthCheckPassed.induct) (auto simp: parseDevices_def)

lemma extendsWith_mono: "extendsWith P s s' \<Longrightarrow> (\<And>e. P e \<Longrightarrow> Q e) \<Longrightarrow> extendsWith Q s s'"
  by (auto simp: extendsWith_def list_all_iff)

lemma quiet_any: "extendsWith P s s' \<Longrightarrow> extendsWith (\<lambda>_. True) s s'"
  by (rule extendsWith_mono) simp_all

lemma quiet_exec: "exec c cmd s = (r, s') \<Longrightarrow> extendsWith (\<lambda>_. True) s s'"
  by (rule extendsWith_exec[of "\<lambda>_. True"]) simp_all

lemma quiet_execAdb: "execAdb c serial args s = (r, s') \<Longrightarrow> extendsWith (\<lambda>_. True) s s'"
  unfolding execAdb_def by (rule quiet_exec)

lemma quiet_adbDevices: "adbDevices c s = (r, s') \<Longrightarrow> extendsWith (\<lambda>_. True) s s'"
  by (rule extendsWith_adbDevices[of "\<lambda>_. True"]) simp_all

lemma quiet_sleep: "extendsWith (\<lambda>_. True) s (sleep ms s)"
  by (rule extendsWith_sleep) simp

lemma quiet_spawn: "extendsWith (\<lambda>_. True) s (spawn cmd args s)"
  by (simp add: extendsWith_def spawn_def)

lemma quiet_tryAdbRestart: "extendsWith (\<lambda>_. True) s (tryAdbRestart c s)"
  unfolding tryAdbRestart_def by (rule quiet_exec[of c "''adb start-server''" s]) (rule prod.collapse[symmetric])

lemma quiet_isAndroidHealthy: "isAndroidHealthy c serial s = (ok, s') \<Longrightarrow> extendsWith (\<lambda>_. True) s s'"
  by (rule quiet_any) (rule isAndroidHealthy_extends)

lemma quiet_confirmed:
  "extendsWith P s s' \<Longrightarrow> confirmedDevice dev (trace s) \<Longrightarrow> confirmedDevice dev (trace s')"
  by (auto simp: extendsWith_def confirmedDevice_append)

lemma isAndroidHealthy_confirmed:
  assumes "isAndroidHealthy c serial s = (True, s')"
  shows "confirmedDevice serial (trace s')"
proof -
  from isAndroidHealthy_confirms[OF assms]
  obtain evs where e: "trace s' = trace s @ evs" "healthCheckPassed serial evs" by blast
  then have "trace s' = trace s @ evs @ []" by simp
  with e(2) confirmedDevice.android_healthy[of serial evs "trace s" "[]"] show ?thesis by simp
qed

declare waitForAndroidHealthyFrom.simps [simp del]

lemma waitForAndroidHealthyFrom_quiet:
  "waitForAndroidHealthyFrom c serial r iv i s = (ok, s') \<Longrightarrow>
   extendsWith (\<lambda>_. True) s s' \<and> (ok \<longrightarrow> confirmedDevice serial (trace s'))"
proof (induction c serial r iv i s arbitrary: ok s' rule: waitForAndroidHealthyFrom.induct)
  case (1 c serial retries interval i s)
  show ?case
  proof (cases "i \<le> retries")
    case False
    with "1.prems" show ?thesis
      by (simp add: waitForAndroidHealthyFrom.simps[of c serial retries interval i s] extendsWith_refl)
  next
    case True
    obtain h s1 where hs: "isAndroidHealthy c serial s = (h, s1)" by force
    have q1: "extendsWith (\<lambda>_. True) s s1" using quiet_isAndroidHealthy[OF hs] .
    show ?thesis
    proof (cases h)
      case True
      with \<open>i \<le> retries\<close> hs "1.prems" have "ok" "s' = s1"
        by (simp_all add: waitForAndroidHealthyFrom.simps[of c serial retries interval i s])
      with q1 isAndroidHealthy_confirmed[of c serial s s1] hs True show ?thesis by simp
    next
      case False
      with \<open>i \<le> retries\<close> hs "1.prems"
      have rec: "waitForAndroidHealthyFrom c serial retries interval (i + 1) (sleep interval s1) = (ok, s')"
        by (simp add: waitForAndroidHealthyFrom.simps[of c serial retries interval i s])
      from "1.IH"[OF \<open>i \<le> retries\<close> hs[symmetric] False rec]
      have ih: "extendsWith (\<lambda>_. True) (sleep interval s1) s' \<and> (ok \<longrightarrow> confirmedDevice serial (trace s'))"
        by simp
      have "extendsWith (\<lambda>_. True) s s'"
        using extendsWith_trans[OF extendsWith_trans[OF q1 quiet_sleep] conjunct1[OF ih]] .
      with ih show ?thesis by simp
    qed
  qed
qed


declare waitForBootCompleteFrom.simps [simp del]
declare awaitSerial.simps [simp del]
declare awaitBooted.simps [simp del]

lemma waitForAndroidHealthy_quiet:
  "waitForAndroidHealthy c serial s = (ok, s') \<Longrightarrow>
   extendsWith (\<lambda>_. True) s s' \<and> (ok \<longrightarrow> confirmedDevice serial (trace s'))"
  unfolding waitForAndroidHealthy_def Let_def by (rule waitForAndroidHealthyFrom_quiet)

lemma quiet_stopAndroid: "extendsWith (\<lambda>_. True) s (stopAndroid c s)"
proof (cases "falsy (androidSerial s)")
  case True
  then show ?thesis by (auto simp: stopAndroid_def falsy_def extendsWith_refl split: option.splits)
next
  case False
  then obtain serial where s: "androidSerial s = Some serial" "serial \<noteq> []"
    by (auto simp: falsy_def split: option.splits)
  obtain r1 s1 where 1: "execAdb c serial [''emu'', ''kill''] s = (r1, s1)" by force
  obtain r2 s2 where 2: "exec c ''adb kill-server'' s1 = (r2, s2)" by force
  have q1: "extendsWith (\<lambda>_. True) s s1" using quiet_execAdb[OF 1] .
  have q2: "extendsWith (\<lambda>_. True) s s2" using extendsWith_trans[OF q1 quiet_exec[OF 2]] .
  have "stopAndroid c s \<in> {s1, s2}"
    using s 1 2 by (auto simp: stopAndroid_def split: sum.splits)
  with q1 q2 show ?thesis by auto
qed

lemma waitForBootCompleteFrom_quiet:
  "waitForBootCompleteFrom c serial deadline s = (r, s') \<Longrightarrow> extendsWith (\<lambda>_. True) s s'"
proof (induction c serial deadline s arbitrary: r s' rule: waitForBootCompleteFrom.induct)
  case (1 c serial deadline s)
  show ?case
  proof (cases "now s < deadline")
    case False
    obtain r1 s1 where 1: "execAdb c serial [''shell'', ''getprop'', ''sys.boot_completed''] s = (r1, s1)" by force
    have "s' = s1"
      using False 1 "1.prems"
      by (auto simp: waitForBootCompleteFrom.simps[of c serial deadline s] split: sum.splits if_splits)
    with quiet_execAdb[OF 1] show ?thesis by simp
  next
    case True
    obtain p1 s1 where 1: "execAdb c serial [''shell'', ''getprop'', ''sys.boot_completed''] s = (p1, s1)" by force
    obtain p2 s2 where 2: "execAdb c serial [''shell'', ''getprop'', ''dev.bootcomplete''] s1 = (p2, s2)" by force
    obtain p3 s3 where 3: "execAdb c serial [''shell'', ''getprop'', ''init.svc.bootanim''] s2 = (p3, s3)" by force
    obtain p4 s4 where 4: "execAdb c serial [''shell'', ''pm'', ''path'', ''android''] s3 = (p4, s4)" by force
    have q4: "extendsWith (\<lambda>_. True) s s4"
      using extendsWith_trans[OF extendsWith_trans[OF extendsWith_trans[OF quiet_execAdb[OF 1] quiet_execAdb[OF 2]]
            quiet_execAdb[OF 3]] quiet_execAdb[OF 4]] .
    let ?bootOk = "(trimmedOrEmpty p1 = ''1'' \<or> trimmedOrEmpty p2 = ''1'')"
    let ?done = "(?bootOk \<and> (trimmedOrEmpty p3 = [] \<or> trimmedOrEmpty p3 = ''stopped'')) \<or> (?bootOk \<and> hasPackage p4)"
    have eq: "waitForBootCompleteFrom c serial deadline s =
               (if ?done then (Inr (), s4) else waitForBootCompleteFrom c serial deadline (sleep 1500 s4))"
      using True 1 2 3 4 by (simp add: waitForBootCompleteFrom.simps[of c serial deadline s] Let_def)
    show ?thesis
    proof (cases ?done)
      case d: True
      have "waitForBootCompleteFrom c serial deadline s = (Inr (), s4)"
        by (subst eq) (rule if_P[OF d])
      with "1.prems" have "s' = s4" by simp
      with q4 show ?thesis by simp
    next
      case d: False
      have "waitForBootCompleteFrom c serial deadline s = waitForBootCompleteFrom c serial deadline (sleep 1500 s4)"
        by (subst eq) (rule if_not_P[OF d])
      with "1.prems" have rec: "waitForBootCompleteFrom c serial deadline (sleep 1500 s4) = (r, s')" by simp
      have "extendsWith (\<lambda>_. True) (sleep 1500 s4) s'"
        using "1.IH"[OF True 1[symmetric] 2[symmetric] 3[symmetric] 4[symmetric] refl refl refl d rec] .
      from extendsWith_trans[OF extendsWith_trans[OF q4 quiet_sleep] this] show ?thesis .
    qed
  qed
qed


lemma waitForBootComplete_quiet:
  "waitForBootComplete c serial t s = (r, s') \<Longrightarrow> extendsWith (\<lambda>_. True) s s'"
  unfolding waitForBootComplete_def by (rule waitForBootCompleteFrom_quiet)

lemma find_isEmulator_nonempty: "find isEmulator ds = Some serial \<Longrightarrow> serial \<noteq> []"
  by (auto simp: find_Some_iff isEmulator_def startsWith_def)

lemma awaitSerial_quiet:
  "awaitSerial c deadline s = (r, s') \<Longrightarrow>
   extendsWith (\<lambda>_. True) s s' \<and> (\<forall>serial. r = Inr (Some serial) \<longrightarrow> serial \<noteq> [])"
proof (induction c deadline s arbitrary: r s' rule: awaitSerial.induct)
  case (1 c deadline s)
  show ?case
  proof (cases "now s < deadline")
    case False
    with "1.prems" show ?thesis
      by (auto simp add: awaitSerial.simps[of c deadline s] extendsWith_refl)
  next
    case True
    obtain r1 s1 where 1: "adbDevices c s = (r1, s1)" by force
    have q1: "extendsWith (\<lambda>_. True) s s1" using quiet_adbDevices[OF 1] .
    show ?thesis
    proof (cases r1)
      case (Inl e)
      with True 1 "1.prems" have "s' = s1" "r = Inl e"
        by (simp_all add: awaitSerial.simps[of c deadline s])
      with q1 show ?thesis by simp
    next
      case (Inr ds)
      show ?thesis
      proof (cases "find isEmulator ds")
        case (Some serial)
        with True 1 Inr "1.prems" have "s' = s1" "r = Inr (Some serial)"
          by (simp_all add: awaitSerial.simps[of c deadline s])
        with q1 find_isEmulator_nonempty[OF Some] show ?thesis by simp
      next
        case None
        with True 1 Inr "1.prems" have rec: "awaitSerial c deadline (sleep 1500 s1) = (r, s')"
          by (simp add: awaitSerial.simps[of c deadline s])
        from "1.IH"[OF True 1[symmetric] Inr None rec]
        have ih: "extendsWith (\<lambda>_. True) (sleep 1500 s1) s' \<and> (\<forall>serial. r = Inr (Some serial) \<longrightarrow> serial \<noteq> [])" .
        from extendsWith_trans[OF extendsWith_trans[OF q1 quiet_sleep] conjunct1[OF ih]] ih
        show ?thesis by simp
      qed
    qed
  qed
qed

lemma keeps_quiet: "keeps s t \<Longrightarrow> extendsWith P t t' \<Longrightarrow> keeps s t'"
  using keeps_trans extendsWith_keeps by blast

lemma keeps_serial: "keeps s t \<Longrightarrow> serial \<noteq> [] \<Longrightarrow> keeps s (t\<lparr>androidSerial := Some serial\<rparr>)"
  by (auto simp: keeps_def identified_def falsy_def)

lemma keeps_udid: "keeps s t \<Longrightarrow> u \<noteq> [] \<Longrightarrow> keeps s (t\<lparr>iosUdid := Some u\<rparr>)"
  by (auto simp: keeps_def identified_def falsy_def)

lemma keeps_raise:
  assumes "keeps s t" and "recordedDevice t dev" and "confirmedDevice dev (trace t)"
  shows "advances s (t\<lparr>started := True\<rparr>)"
proof -
  have "recordedDevice (t\<lparr>started := True\<rparr>) dev \<and> confirmedDevice dev (trace (t\<lparr>started := True\<rparr>))"
    using assms(2,3) by (simp add: recordedDevice_def)
  then have "\<exists>dev. recordedDevice (t\<lparr>started := True\<rparr>) dev \<and> confirmedDevice dev (trace (t\<lparr>started := True\<rparr>))"
    by blast
  moreover have "identified t" using assms(2) by (auto simp: recordedDevice_def identified_def falsy_def)
  ultimately show ?thesis using assms(1) by (simp add: keeps_def advances_def identified_def)
qed

lemma quiet_serial: "extendsWith P t t' \<Longrightarrow> androidSerial t' = androidSerial t"
  and quiet_udid: "extendsWith P t t' \<Longrightarrow> iosUdid t' = iosUdid t"
  by (auto simp: extendsWith_def)

lemma startAndroid_advances:
  assumes "startAndroid c force s = (r, s')"
  shows "advances s s' \<and> (isl r \<longrightarrow> keeps s s')"
proof -
  let ?name = "(case configuredAvdName c of None \<Rightarrow> ''undefined'' | Some n \<Rightarrow> n)"
  let ?s1 = "tryAdbRestart c s"
  let ?s2 = "spawn (emulatorCmd c) (emulatorArgs c ?name force) ?s1"
  let ?bt = "(case Option.bind (opts_android (opts c)) bootTimeoutMs of None \<Rightarrow> 240000 | Some t \<Rightarrow> t)"
  have a1: "keeps s ?s1" using keeps_quiet[OF keeps_refl quiet_tryAdbRestart] .
  have a2: "keeps s ?s2" using keeps_quiet[OF a1 quiet_spawn] .
  obtain r3 s3 where 3: "awaitSerial c (now ?s2 + ?bt) ?s2 = (r3, s3)" by force
  have a3: "keeps s s3" using keeps_quiet[OF a2 conjunct1[OF awaitSerial_quiet[OF 3]]] .
  show ?thesis
  proof (cases r3)
    case (Inl e)
    with assms 3 have "s' = s3" by (simp add: startAndroid_def Let_def)
    with a3 show ?thesis by (simp add: keeps_advances)
  next
    case (Inr found)
    show ?thesis
    proof (cases found)
      case None
      with assms 3 Inr have "s' = s3" by (simp add: startAndroid_def Let_def)
      with a3 show ?thesis by (simp add: keeps_advances)
    next
      case found: (Some serial)
      then have ne: "serial \<noteq> []" using awaitSerial_quiet[OF 3] Inr by simp
      let ?s4 = "s3\<lparr>androidSerial := Some serial\<rparr>"
      have a4: "keeps s ?s4" using keeps_serial[OF a3 ne] .
      obtain r5 s5 where 5: "execAdb c serial [''wait-for-device''] ?s4 = (r5, s5)" by force
      have q5: "extendsWith (\<lambda>_. True) ?s4 s5" using quiet_execAdb[OF 5] .
      have a5: "keeps s s5" using keeps_quiet[OF a4 q5] .
      obtain r6 s6 where 6: "waitForBootComplete c serial (now ?s2 + ?bt - now s5) s5 = (r6, s6)" by force
      have q6: "extendsWith (\<lambda>_. True) s5 s6" using waitForBootComplete_quiet[OF 6] .
      have a6: "keeps s s6" using keeps_quiet[OF a5 q6] .
      obtain ok s7 where 7: "waitForAndroidHealthy c serial s6 = (ok, s7)" by force
      have q7: "extendsWith (\<lambda>_. True) s6 s7" using waitForAndroidHealthy_quiet[OF 7] by simp
      have a7: "keeps s s7" using keeps_quiet[OF a6 q7] .
      obtain r8 s8 where 8: "execAdb c serial [''shell'', ''input'', ''keyevent'', ''82''] s7 = (r8, s8)" by force
      have q8: "extendsWith (\<lambda>_. True) s7 s8" using quiet_execAdb[OF 8] .
      have a8: "keeps s s8" using keeps_quiet[OF a7 q8] .
      have ser: "androidSerial s8 = Some serial"
        using quiet_serial[OF q5] quiet_serial[OF q6] quiet_serial[OF q7] quiet_serial[OF q8] by simp
      then have rec8: "recordedDevice s8 serial" using ne by (simp add: recordedDevice_def)
      have a9: "ok \<Longrightarrow> advances s (s8\<lparr>started := True\<rparr>)"
      proof -
        assume ok
        then have "confirmedDevice serial (trace s7)" using waitForAndroidHealthy_quiet[OF 7] by simp
        then have "confirmedDevice serial (trace s8)" using quiet_confirmed[OF q8] by simp
        from keeps_raise[OF a8 rec8 this] show ?thesis .
      qed
      have "s' = s5 \<or> s' = s6 \<or> s' = s7 \<or> (ok \<and> s' = s8\<lparr>started := True\<rparr> \<and> r = Inr ())"
        using assms 3 Inr found 5 6 7 8
        by (auto simp: startAndroid_def Let_def split: sum.splits if_splits)
      with a5 a6 a7 a9 show ?thesis by (auto simp: keeps_advances)
    qed
  qed
qed

lemma startOrHealAndroid_advances:
  assumes "startOrHealAndroid c s = (r, s')"
  shows "advances s s' \<and> (isl r \<longrightarrow> keeps s s')"
proof (cases "falsy (configuredAvdName c)")
  case True
  with assms have "s' = s" by (simp add: startOrHealAndroid_def)
  then show ?thesis by (simp add: keeps_refl keeps_advances)
next
  case avd: False
  obtain r1 s1 where 1: "adbDevices c s = (r1, s1)" by force
  have a1: "keeps s s1" using keeps_quiet[OF keeps_refl quiet_adbDevices[OF 1]] .
  show ?thesis
  proof (cases r1)
    case (Inl e)
    with assms avd 1 have "s' = s1" by (simp add: startOrHealAndroid_def)
    with a1 show ?thesis by (simp add: keeps_advances)
  next
    case (Inr devices)
    show ?thesis
    proof (cases "find isEmulator devices")
      case None
      with assms avd 1 Inr have "startAndroid c False s1 = (r, s')"
        by (simp add: startOrHealAndroid_def)
      from keeps_then_outcome[OF a1 startAndroid_advances[OF this]] show ?thesis .
    next
      case (Some running)
      then have ne: "running \<noteq> []" by (rule find_isEmulator_nonempty)
      let ?s2 = "s1\<lparr>androidSerial := Some running\<rparr>"
      have a2: "keeps s ?s2" using keeps_serial[OF a1 ne] .
      obtain ok s3 where 3: "isAndroidHealthy c running ?s2 = (ok, s3)" by force
      have q3: "extendsWith (\<lambda>_. True) ?s2 s3" using quiet_isAndroidHealthy[OF 3] .
      have a3: "keeps s s3" using keeps_quiet[OF a2 q3] .
      show ?thesis
      proof (cases ok)
        case True
        with 3 have conf: "confirmedDevice running (trace s3)" using isAndroidHealthy_confirmed by simp
        have rec3: "recordedDevice s3 running"
          using quiet_serial[OF q3] ne by (simp add: recordedDevice_def)
        from assms avd 1 Inr Some 3 True have "s' = s3\<lparr>started := True\<rparr>" "r = Inr ()"
          by (simp_all add: startOrHealAndroid_def Let_def)
        with keeps_raise[OF a3 rec3 conf] show ?thesis by simp
      next
        case False
        let ?s4 = "stopAndroid c s3"
        have a4: "keeps s ?s4" using keeps_quiet[OF a3 quiet_stopAndroid] .
        from assms avd 1 Inr Some 3 False
        have "startAndroid c (case envFlag c ''ANDROID_COLD_RESTART_ON_FAIL'' of None \<Rightarrow> True | Some b \<Rightarrow> b) ?s4 = (r, s')"
          by (simp add: startOrHealAndroid_def Let_def)
        from keeps_then_outcome[OF a4 startAndroid_advances[OF this]] show ?thesis .
      qed
    qed
  qed
qed

lemma ensureAndroidReadyFrom_advances:
  "ensureAndroidReadyFrom c retries attempt s = (r, s') \<Longrightarrow> advances s s'"
proof (induction c retries attempt s arbitrary: r s' rule: ensureAndroidReadyFrom.induct)
  case (1 c retries attempt s)
  show ?case
  proof (cases "attempt \<le> retries")
    case False
    with "1.prems" show ?thesis
      by (auto simp add: ensureAndroidReadyFrom.simps[of c retries attempt s] keeps_refl keeps_advances)
  next
    case True
    obtain r1 s1 where 1: "startOrHealAndroid c s = (r1, s1)" by force
    have o1: "advances s s1 \<and> (isl r1 \<longrightarrow> keeps s s1)" using startOrHealAndroid_advances[OF 1] .
    show ?thesis
    proof (cases r1)
      case (Inr u)
      with True 1 "1.prems" have "s' = s1"
        by (simp add: ensureAndroidReadyFrom.simps[of c retries attempt s])
      with o1 show ?thesis by simp
    next
      case (Inl e)
      let ?s2 = "tryAdbRestart c s1"
      have a1: "keeps s s1" using o1 Inl by simp
      have a2: "keeps s ?s2" using keeps_quiet[OF a1 quiet_tryAdbRestart] .
      have eq: "ensureAndroidReadyFrom c retries attempt s =
                 (if attempt < retries
                  then ensureAndroidReadyFrom c retries (attempt + 1) (sleep (1500 * (attempt + 1)) ?s2)
                  else (Inl e, ?s2))"
        using True 1 Inl by (simp add: ensureAndroidReadyFrom.simps[of c retries attempt s] Let_def)
      show ?thesis
      proof (cases "attempt < retries")
        case False
        have "ensureAndroidReadyFrom c retries attempt s = (Inl e, ?s2)"
          by (subst eq) (rule if_not_P[OF False])
        with "1.prems" have "s' = ?s2" by simp
        with a2 show ?thesis by (simp add: keeps_advances)
      next
        case lt: True
        have "ensureAndroidReadyFrom c retries attempt s =
              ensureAndroidReadyFrom c retries (attempt + 1) (sleep (1500 * (attempt + 1)) ?s2)"
          by (subst eq) (rule if_P[OF lt])
        with "1.prems"
        have rec: "ensureAndroidReadyFrom c retries (attempt + 1) (sleep (1500 * (attempt + 1)) ?s2) = (r, s')"
          by simp
        from "1.IH"[OF True 1[symmetric] Inl refl lt rec]
        have "advances (sleep (1500 * (attempt + 1)) ?s2) s'" .
        from keeps_then_advances[OF keeps_quiet[OF a2 quiet_sleep] this] show ?thesis .
      qed
    qed
  qed
qed

lemma ensureAndroidReadyWithRetry_advances:
  "ensureAndroidReadyWithRetry c s = (r, s') \<Longrightarrow> advances s s'"
  unfolding ensureAndroidReadyWithRetry_def by (rule ensureAndroidReadyFrom_advances)

lemma quiet_isBooted: "isBooted c u s = (ok, s') \<Longrightarrow> extendsWith (\<lambda>_. True) s s'"
  by (auto simp: isBooted_def split: prod.splits sum.splits dest: quiet_exec)

lemma isBooted_confirmed:
  assumes "isBooted c u s = (True, s')"
  shows "confirmedDevice u (trace s')"
proof -
  from assms(1) obtain out where "trace s' = trace s @ [Exec (bootedQuery u) (Inr out)]" "includesStr out u"
    by (auto simp: isBooted_def exec_eq bootedQuery_def settle_def split: sum.splits)
  with confirmedDevice.ios_booted[OF bootedConfirmed.booted, of out u "trace s" "[]"]
  show ?thesis by simp
qed

lemma awaitBooted_quiet: "extendsWith (\<lambda>_. True) s (awaitBooted c u deadline s)"
proof (induction c u deadline s rule: awaitBooted.induct)
  case (1 c u deadline s)
  show ?case
  proof (cases "now s < deadline")
    case False
    then show ?thesis by (simp add: awaitBooted.simps[of c u deadline s] extendsWith_refl)
  next
    case True
    obtain ok s1 where 1: "isBooted c u s = (ok, s1)" by force
    have q1: "extendsWith (\<lambda>_. True) s s1" using quiet_isBooted[OF 1] .
    show ?thesis
    proof (cases ok)
      case True
      with \<open>now s < deadline\<close> 1 have "awaitBooted c u deadline s = s1"
        by (simp add: awaitBooted.simps[of c u deadline s])
      with q1 show ?thesis by simp
    next
      case False
      with \<open>now s < deadline\<close> 1 have "awaitBooted c u deadline s = awaitBooted c u deadline (sleep 1000 s1)"
        by (simp add: awaitBooted.simps[of c u deadline s])
      with extendsWith_trans[OF extendsWith_trans[OF q1 quiet_sleep] "1.IH"[OF True 1[symmetric] False]]
      show ?thesis by simp
    qed
  qed
qed

lemma quiet_findUdidByName: "findUdidByName c name s = (r, s') \<Longrightarrow> extendsWith (\<lambda>_. True) s s'"
  by (auto simp: findUdidByName_def split: prod.splits sum.splits dest: quiet_exec)

lemma quiet_resolveTargetUdid: "resolveTargetUdid c s = (r, s') \<Longrightarrow> extendsWith (\<lambda>_. True) s s'"
  by (auto simp: resolveTargetUdid_def Let_def extendsWith_refl split: if_splits dest: quiet_findUdidByName)

lemma quiet_stopIOS: "extendsWith (\<lambda>_. True) s (stopIOS c s)"
  using quiet_exec[OF prod.collapse[symmetric]]
  by (auto simp: stopIOS_def extendsWith_refl split: option.splits)


lemma startIOS_advances:
  assumes "startIOS c s = (r, s')"
  shows "advances s s'"
proof (cases "osPlatform c = ''darwin''")
  case False
  with assms have "s' = s" by (simp add: startIOS_def)
  then show ?thesis by (simp add: keeps_refl keeps_advances)
next
  case mac: True
  obtain t s1 where 1: "resolveTargetUdid c s = (t, s1)" by force
  have a1: "keeps s s1" using keeps_quiet[OF keeps_refl quiet_resolveTargetUdid[OF 1]] .
  show ?thesis
  proof (cases "falsy t")
    case True
    with assms mac 1 have "s' = s1"
      by (auto simp: startIOS_def Let_def falsy_def split: option.splits)
    with a1 show ?thesis by (simp add: keeps_advances)
  next
    case False
    then obtain target where t: "t = Some target" "target \<noteq> []"
      by (auto simp: falsy_def split: option.splits)
    obtain ab s2 where 2: "isBooted c target s1 = (ab, s2)" by force
    have a2: "keeps s s2" using keeps_quiet[OF a1 quiet_isBooted[OF 2]] .
    show ?thesis
    proof (cases ab)
      case True
      with assms mac 1 t 2 have "s' = s2\<lparr>iosUdid := Some target\<rparr>"
        by (simp add: startIOS_def Let_def)
      with keeps_udid[OF a2 t(2)] show ?thesis by (simp add: keeps_advances)
    next
      case notBooted: False
      obtain r3 s3 where 3: "exec c (''xcrun simctl boot '' @ target) s2 = (r3, s3)" by force
      have a3: "keeps s s3" using keeps_quiet[OF a2 quiet_exec[OF 3]] .
      show ?thesis
      proof (cases r3)
        case (Inl e)
        with assms mac 1 t 2 notBooted 3 have "s' = s3"
          by (simp add: startIOS_def Let_def)
        with a3 show ?thesis by (simp add: keeps_advances)
      next
        case (Inr out)
        let ?headl = "orElse (Option.bind (opts_ios (opts c)) ios_headless)
                        (orElse (envFlag c ''IOS_HEADLESS'')
                          (orElse (envFlag c ''HEADLESS'') (envFlag c ''CI''))) = Some True"
        let ?bt = "(case Option.bind (opts_ios (opts c)) ios_bootTimeoutMs of None \<Rightarrow> 120000 | Some t \<Rightarrow> t)"
        let ?s4 = "(if \<not> ?headl then snd (exec c ''open -a Simulator'' s3) else s3)"
        let ?s5 = "awaitBooted c target (now ?s4 + ?bt) ?s4"
        have q4: "extendsWith (\<lambda>_. True) s3 ?s4"
          using quiet_exec[of c "''open -a Simulator''" s3 "fst (exec c ''open -a Simulator'' s3)"
              "snd (exec c ''open -a Simulator'' s3)"]
          by (simp add: extendsWith_refl)
        have a5: "keeps s ?s5"
          using keeps_quiet[OF keeps_quiet[OF a3 q4] awaitBooted_quiet] .
        obtain ok s6 where 6: "isBooted c target ?s5 = (ok, s6)" by force
        have q6: "extendsWith (\<lambda>_. True) ?s5 s6" using quiet_isBooted[OF 6] .
        have a6: "keeps s s6" using keeps_quiet[OF a5 q6] .
        show ?thesis
        proof (cases ok)
          case False
          with assms mac 1 t 2 notBooted 3 Inr 6 have "s' = s6"
            by (simp add: startIOS_def Let_def)
          with a6 show ?thesis by (simp add: keeps_advances)
        next
          case True
          with 6 have conf: "confirmedDevice target (trace s6)" using isBooted_confirmed by simp
          let ?s7 = "s6\<lparr>iosUdid := Some target\<rparr>"
          have a7: "keeps s ?s7" using keeps_udid[OF a6 t(2)] .
          have "recordedDevice ?s7 target" "confirmedDevice target (trace ?s7)"
            using t(2) conf by (simp_all add: recordedDevice_def)
          from keeps_raise[OF a7 this]
          have a8: "advances s (s6\<lparr>iosUdid := Some target, started := True\<rparr>)" by simp
          from assms mac 1 t 2 notBooted 3 Inr 6 True
          have "s' = s6\<lparr>iosUdid := Some target, started := True\<rparr>"
            by (simp add: startIOS_def Let_def)
          with a8 show ?thesis by simp
        qed
      qed
    qed
  qed
qed

lemma onPrepare_advances: "advances s (snd (onPrepare c s))"
  using ensureAndroidReadyWithRetry_advances[OF prod.collapse[symmetric]]
        startIOS_advances[OF prod.collapse[symmetric]]
  by (simp add: onPrepare_def)

lemma beforeSession_advances: "advances s (snd (beforeSession c s))"
  using ensureAndroidReadyWithRetry_advances[OF prod.collapse[symmetric]]
  by (simp add: beforeSession_def keeps_refl keeps_advances)

lemma onComplete_advances: "advances s (onComplete c s)"
  using extendsWith_advances[OF quiet_stopAndroid] extendsWith_advances[OF quiet_stopIOS]
  by (simp add: onComplete_def Let_def keeps_refl keeps_advances)

lemma step_advances:
  assumes "step c s s'"
  shows "advances s s'"
  using assms
proof (cases rule: step.cases)
  case s_onPrepare
  then show ?thesis by (simp add: onPrepare_advances)
next
  case s_beforeSession
  then show ?thesis by (simp add: beforeSession_advances)
next
  case s_onComplete
  then show ?thesis by (simp add: onComplete_advances)
next
  case s_ensure
  with ensureAndroidReadyWithRetry_advances[OF prod.collapse[symmetric]] show ?thesis by simp
next
  case s_startOrHeal
  with conjunct1[OF startOrHealAndroid_advances[OF prod.collapse[symmetric]]] show ?thesis by simp
next
  case (s_startAndroid force)
  with conjunct1[OF startAndroid_advances[OF prod.collapse[symmetric]]] show ?thesis by simp
next
  case (s_isHealthy serial)
  with extendsWith_advances[OF quiet_isAndroidHealthy[OF prod.collapse[symmetric]]] show ?thesis by simp
next
  case (s_waitHealthy serial)
  with extendsWith_advances[OF conjunct1[OF waitForAndroidHealthy_quiet[OF prod.collapse[symmetric]]]]
  show ?thesis by simp
next
  case (s_waitBoot serial timeoutMs)
  with extendsWith_advances[OF waitForBootComplete_quiet[OF prod.collapse[symmetric]]] show ?thesis by simp
next
  case s_stopAndroid
  with extendsWith_advances[OF quiet_stopAndroid] show ?thesis by simp
next
  case s_adbDevices
  with extendsWith_advances[OF quiet_adbDevices[OF prod.collapse[symmetric]]] show ?thesis by simp
next
  case (s_execAdb serial args)
  with extendsWith_advances[OF quiet_execAdb[OF prod.collapse[symmetric]]] show ?thesis by simp
next
  case s_tryAdbRestart
  with extendsWith_advances[OF quiet_tryAdbRestart] show ?thesis by simp
next
  case s_startIOS
  with startIOS_advances[OF prod.collapse[symmetric]] show ?thesis by simp
next
  case s_stopIOS
  with extendsWith_advances[OF quiet_stopIOS] show ?thesis by simp
next
  case (s_isBooted u)
  with extendsWith_advances[OF quiet_isBooted[OF prod.collapse[symmetric]]] show ?thesis by simp
next
  case (s_findUdid name)
  with extendsWith_advances[OF quiet_findUdidByName[OF prod.collapse[symmetric]]] show ?thesis by simp
next
  case (s_sleep ms)
  with extendsWith_advances[OF quiet_sleep] show ?thesis by simp
qed

lemma invariant_step:
  assumes "started s \<longrightarrow> identified s \<and> (\<exists>dev. dev \<noteq> [] \<and> confirmedDevice dev (trace s))"
      and "advances s s'"
  shows "started s' \<longrightarrow> identified s' \<and> (\<exists>dev. dev \<noteq> [] \<and> confirmedDevice dev (trace s'))"
proof
  assume st: "started s'"
  from assms(2) obtain new where n: "trace s' = trace s @ new" by (auto simp: advances_def)
  from assms(2) st consider "started s" | dev where "recordedDevice s' dev" "confirmedDevice dev (trace s')"
    by (auto simp: advances_def)
  then show "identified s' \<and> (\<exists>dev. dev \<noteq> [] \<and> confirmedDevice dev (trace s'))"
  proof cases
    case 1
    with assms(1) obtain dev where "identified s" "dev \<noteq> []" "confirmedDevice dev (trace s)" by blast
    then show ?thesis
      using assms(2) confirmedDevice_append[of dev "trace s" new] n by (auto simp: advances_def)
  next
    case 2
    then show ?thesis by (auto simp: recordedDevice_def identified_def falsy_def)
  qed
qed

lemma reachable_invariant:
  "reachable c s \<Longrightarrow> started s \<longrightarrow> identified s \<and> (\<exists>dev. dev \<noteq> [] \<and> confirmedDevice dev (trace s))"
proof (induction rule: reachable.induct)
  case (r_new t0)
  show ?case by (simp add: newService_def)
next
  case (r_step s s')
  from invariant_step[OF r_step.IH step_advances[OF r_step.hyps(2)]] show ?case .
qed

lemma confirmedDevice_evidence:
  assumes "confirmedDevice dev tr"
  shows "(\<exists>o1. Exec (adbCmd dev [''get-state'']) o1 \<in> set tr \<and> trimmedOrEmpty (settle o1) = ''device'')
       \<or> (\<exists>out. Exec (bootedQuery dev) (Inr out) \<in> set tr)"
  using assms
proof (cases rule: confirmedDevice.cases)
  case (android_healthy evs before after)
  from android_healthy(2) have "\<exists>o1. Exec (adbCmd dev [''get-state'']) o1 \<in> set evs \<and> trimmedOrEmpty (settle o1) = ''device''"
    by (cases rule: healthCheckPassed.cases) auto
  with android_healthy(1) show ?thesis by auto
next
  case (ios_booted evs before after)
  from ios_booted(2) have "\<exists>out. Exec (bootedQuery dev) (Inr out) \<in> set evs"
    by (cases rule: bootedConfirmed.cases) auto
  with ios_booted(1) show ?thesis by auto
qed

lemmas replaced_defs = replacedContext_def replacedShell_def offlineListing_def androidContext_def
  healthyShell_def newService_def onPrepare_def beforeSession_def ensureAndroidReadyWithRetry_def
  ensureAndroidReadyFrom.simps[of _ _ 0] startOrHealAndroid_def isAndroidHealthy_def stopAndroid_def
  startAndroid_def spawn_def emulatorCmd_def emulatorArgs_def envFlag_def

lemma replaced_onPrepare:
  "onPrepare replacedContext (newService 0) =
     (Inr (),
      \<lparr>androidSerial = Some ''emulator-5554'', iosUdid = None, started = True,
        trace = [Exec ''adb devices'' (Inr (''List of devices attached'' @ [newline] @ ''emulator-5554'' @ [tab] @ ''device'' @ [newline])),
                 Exec ''adb devices'' (Inr (''List of devices attached'' @ [newline] @ ''emulator-5554'' @ [tab] @ ''device'' @ [newline])),
                 Exec ''adb -s emulator-5554 get-state'' (Inr (''device'' @ [newline])),
                 Exec ''adb -s emulator-5554 shell getprop ro.build.version.release'' (Inr (''14'' @ [newline])),
                 Exec ''adb -s emulator-5554 shell pm path android''
                   (Inr (''package:/system/framework/framework-res.apk'' @ [newline])),
                 Exec ''adb -s emulator-5554 shell getprop sys.boot_completed'' (Inr (''1'' @ [newline]))],
        now = 100\<rparr>)"
  by (simp add: replaced_defs run_defs)

lemma replaced_beforeSession:
  "beforeSession replacedContext (snd (onPrepare replacedContext (newService 0))) =
     (Inl (Error ''error: device offline''),
      \<lparr>androidSerial = Some ''emulator-5556'', iosUdid = None, started = True,
        trace = trace (snd (onPrepare replacedContext (newService 0))) @
                [Exec ''adb devices'' (Inr offlineListing),
                 Exec ''adb devices'' (Inr offlineListing),
                 Exec ''adb -s emulator-5556 get-state'' (Inl ''error: device offline''),
                 Exec ''adb -s emulator-5556 emu kill'' (Inl ''error: device offline''),
                 Exec ''adb kill-server'' (Inl ''error: device offline''),
                 Exec ''adb start-server'' (Inl ''error: device offline''),
                 Spawn ''emulator'' [''-avd'', ''Pixel_6_API_34'', ''-netdelay'', ''none'', ''-netspeed'', ''full'',
                                    ''-no-boot-anim'', ''-no-snapshot-load''],
                 Exec ''adb devices'' (Inr offlineListing),
                 Exec ''adb -s emulator-5556 wait-for-device'' (Inl ''error: device offline''),
                 Exec ''adb start-server'' (Inl ''error: device offline'')],
        now = 190\<rparr>)"
  unfolding replaced_onPrepare
  by (simp add: replaced_defs run_defs awaitSerial.simps[of _ 240160] orElse_def)

text \<open>
  Claim C6, as stated, fails: the recorded device need not be one that was confirmed
  healthy. The pre-run hook finds emulator-5554 healthy and raises the started flag. The
  emulator is then replaced by emulator-5556, which is listed but offline. The pre-session
  hook records the new serial before it checks it, the check and the restart fail, and the
  hook ends with an error: the flag is still true, the recorded serial is emulator-5556,
  and the trace holds the passing check of emulator-5554 but none of emulator-5556, only
  its failed state query.
\<close>

theorem started_with_unconfirmed_serial_counterexample:
  "reachable replacedContext
     (snd (beforeSession replacedContext (snd (onPrepare replacedContext (newService 0)))))
   \<and> fst (beforeSession replacedContext (snd (onPrepare replacedContext (newService 0)))) =
       Inl (Error ''error: device offline'')
   \<and> started (snd (beforeSession replacedContext (snd (onPrepare replacedContext (newService 0)))))
   \<and> androidSerial (snd (beforeSession replacedContext (snd (onPrepare replacedContext (newService 0))))) =
       Some ''emulator-5556''
   \<and> iosUdid (snd (beforeSession replacedContext (snd (onPrepare replacedContext (newService 0))))) = None
   \<and> trace (snd (beforeSession replacedContext (snd (onPrepare replacedContext (newService 0))))) =
       trace (snd (onPrepare replacedContext (newService 0))) @
       [Exec ''adb devices'' (Inr offlineListing),
        Exec ''adb devices'' (Inr offlineListing),
        Exec ''adb -s emulator-5556 get-state'' (Inl ''error: device offline''),
        Exec ''adb -s emulator-5556 emu kill'' (Inl ''error: device offline''),
        Exec ''adb kill-server'' (Inl ''error: device offline''),
        Exec ''adb start-server'' (Inl ''error: device offline''),
        Spawn ''emulator'' [''-avd'', ''Pixel_6_API_34'', ''-netdelay'', ''none'', ''-netspeed'', ''full'',
                           ''-no-boot-anim'', ''-no-snapshot-load''],
        Exec ''adb devices'' (Inr offlineListing),
        Exec ''adb -s emulator-5556 wait-for-device'' (Inl ''error: device offline''),
        Exec ''adb start-server'' (Inl ''error: device offline'')]
   \<and> confirmedDevice ''emulator-5554''
         (trace (snd (beforeSession replacedContext (snd (onPrepare replacedContext (newService 0))))))
   \<and> \<not> confirmedDevice ''emulator-5556''
         (trace (snd (beforeSession replacedContext (snd (onPrepare replacedContext (newService 0))))))"
proof -
  let ?s1 = "snd (onPrepare replacedContext (newService 0))"
  let ?s2 = "snd (beforeSession replacedContext ?s1)"
  have r: "reachable replacedContext ?s2"
    by (rule reachable.r_step[OF reachable.r_step[OF reachable.r_new step.s_onPrepare] step.s_beforeSession])
  have "\<not> ((\<exists>o1. Exec (adbCmd ''emulator-5556'' [''get-state'']) o1 \<in> set (trace ?s2)
               \<and> trimmedOrEmpty (settle o1) = ''device'')
           \<or> (\<exists>out. Exec (bootedQuery ''emulator-5556'') (Inr out) \<in> set (trace ?s2)))"
    unfolding replaced_beforeSession
    by (simp add: replaced_onPrepare adbCmd_def bootedQuery_def settle_def trimmedOrEmpty_def)
  then have n: "\<not> confirmedDevice ''emulator-5556'' (trace ?s2)"
    using confirmedDevice_evidence[of "''emulator-5556''" "trace ?s2"] by blast
  have "advances (newService 0) ?s1" using step_advances[OF step.s_onPrepare] .
  moreover have "started ?s1" by (simp add: replaced_onPrepare)
  moreover have "\<not> started (newService 0)" by (simp add: newService_def)
  ultimately obtain dev where "recordedDevice ?s1 dev" "confirmedDevice dev (trace ?s1)"
    by (auto simp: advances_def)
  then have "confirmedDevice ''emulator-5554'' (trace ?s1)"
    by (auto simp: recordedDevice_def replaced_onPrepare)
  from confirmedDevice_append[OF this]
  have c: "confirmedDevice ''emulator-5554'' (trace ?s2)"
    by (simp add: replaced_beforeSession)
  from r n c show ?thesis
    by (simp add: replaced_beforeSession)
qed

text \<open>
  Claim C6, amended. In every state reachable by any sequence of the hooks and of the
  methods they are made of, if the started flag is true then a device identifier (Android
  serial or iOS UDID) is recorded, and the trace, which is the history of the service,
  holds the confirmation of a device: a complete passing run of the Android health check
  for its serial, or a booted-status query that answered with its UDID. No operation
  lowers the flag, and an operation that raises it ends in a state whose recorded
  identifier is that of a device confirmed in the trace: the confirmation came before the
  flag, for the device recorded at that moment.
\<close>

theorem started_only_after_confirmation:
  assumes "reachable c s"
  shows "(started s \<longrightarrow> identified s \<and> (\<exists>dev. dev \<noteq> [] \<and> confirmedDevice dev (trace s)))
       \<and> (\<forall>s'. step c s s' \<longrightarrow>
             (started s \<longrightarrow> started s')
           \<and> (\<not> started s \<and> started s' \<longrightarrow>
                (\<exists>dev. recordedDevice s' dev \<and> confirmedDevice dev (trace s'))))"
proof -
  have "step c s s' \<Longrightarrow>
          (started s \<longrightarrow> started s')
        \<and> (\<not> started s \<and> started s' \<longrightarrow> (\<exists>dev. recordedDevice s' dev \<and> confirmedDevice dev (trace s')))" for s'
    using step_advances[of c s s'] by (auto simp: advances_def)
  with reachable_invariant[OF assms] show ?thesis by blast
qed

theorem started_only_after_confirmation_witness:
  "reachable (androidContext (Some ''Pixel_6_API_34'') healthyShell) (newService 0)
   \<and> step (androidContext (Some ''Pixel_6_API_34'') healthyShell) (newService 0)
        (snd (onPrepare (androidContext (Some ''Pixel_6_API_34'') healthyShell) (newService 0)))
   \<and> \<not> started (newService 0)
   \<and> started (snd (onPrepare (androidContext (Some ''Pixel_6_API_34'') healthyShell) (newService 0)))
   \<and> recordedDevice (snd (onPrepare (androidContext (Some ''Pixel_6_API_34'') healthyShell) (newService 0)))
        ''emulator-5554''
   \<and> confirmedDevice ''emulator-5554''
        (trace (snd (onPrepare (androidContext (Some ''Pixel_6_API_34'') healthyShell) (newService 0))))
   \<and> reachable (androidContext (Some ''Pixel_6_API_34'') healthyShell)
        (snd (onPrepare (androidContext (Some ''Pixel_6_API_34'') healthyShell) (newService 0)))
   \<and> identified (snd (onPrepare (androidContext (Some ''Pixel_6_API_34'') healthyShell) (newService 0)))"
proof -
  let ?c = "androidContext (Some ''Pixel_6_API_34'') healthyShell"
  let ?s = "snd (onPrepare ?c (newService 0))"
  have r0: "reachable ?c (newService 0)" by (rule reachable.r_new)
  have stp: "step ?c (newService 0) ?s" by (rule step.s_onPrepare)
  have r1: "reachable ?c ?s" by (rule reachable.r_step[OF r0 stp])
  have st: "\<not> started (newService 0) \<and> started ?s \<and> androidSerial ?s = Some ''emulator-5554''
            \<and> iosUdid ?s = None"
    by (simp add: onPrepare_def ensureAndroidReadyWithRetry_def ensureAndroidReadyFrom.simps[of _ _ 0]
        startOrHealAndroid_def isAndroidHealthy_def androidContext_def healthyShell_def newService_def
        adbDevices_def execAdb_def adbCmd_def exec_def settle_def parseDevices_def trim_def
        isSpace_def sleep_def trimmedOrEmpty_def hasPackage_def startsWith_def
        isEmulator_def healthInterval_def configuredAvdName_def orTruthy_def falsy_def emulatorRetries_def)
  from started_only_after_confirmation[OF r0] stp st
  obtain dev where d: "recordedDevice ?s dev" "confirmedDevice dev (trace ?s)" by blast
  then have "dev = ''emulator-5554''" using st by (simp add: recordedDevice_def)
  with d have c: "recordedDevice ?s ''emulator-5554''" "confirmedDevice ''emulator-5554'' (trace ?s)"
    by simp_all
  from started_only_after_confirmation[OF r1] st have "identified ?s" by blast
  with r0 stp r1 st c show ?thesis by simp
qed

section \<open>The retry loop\<close>

lemma ensureAndroidReadyFrom_exhaust:
  assumes "\<forall>k\<le>r. attemptFails c s k" and "k \<le> r"
  shows "ensureAndroidReadyFrom c (int r) (int k) (attemptStart c s k) =
           (Inl (projl (fst (startOrHealAndroid c (attemptStart c s r)))),
            tryAdbRestart c (snd (startOrHealAndroid c (attemptStart c s r))))"
  using assms(2)
proof (induction "r - k" arbitrary: k)
  case 0
  then have kr: "k = r" by simp
  from assms(1) have "attemptFails c s r" by simp
  then obtain e s1 where "startOrHealAndroid c (attemptStart c s r) = (Inl e, s1)"
    by (cases "startOrHealAndroid c (attemptStart c s r)") (auto simp: attemptFails_def isl_def)
  then show ?case
    by (subst ensureAndroidReadyFrom.simps) (simp add: kr)
next
  case (Suc d)
  then have lt: "k < r" and d: "d = r - Suc k" and le: "Suc k \<le> r" by simp_all
  from assms(1) lt have "attemptFails c s k" by simp
  then obtain e s1 where soh: "startOrHealAndroid c (attemptStart c s k) = (Inl e, s1)"
    by (cases "startOrHealAndroid c (attemptStart c s k)") (auto simp: attemptFails_def isl_def)
  have "ensureAndroidReadyFrom c (int r) (int k) (attemptStart c s k) =
        ensureAndroidReadyFrom c (int r) (int (Suc k)) (attemptStart c s (Suc k))"
    using lt by (subst ensureAndroidReadyFrom.simps) (simp add: soh add.commute)
  with Suc.hyps(1)[OF d le] show ?case by simp
qed


lemma trace_startOrHealAndroid:
  "trace (snd (startOrHealAndroid c t)) =
     trace t @ drop (length (trace t)) (trace (snd (startOrHealAndroid c t)))"
proof -
  from startOrHealAndroid_advances[of c t "fst (startOrHealAndroid c t)" "snd (startOrHealAndroid c t)"]
  obtain new where "trace (snd (startOrHealAndroid c t)) = trace t @ new"
    by (auto simp: advances_def)
  then show ?thesis by simp
qed

lemma trace_tryAdbRestart:
  "trace (tryAdbRestart c t) = trace t @ [Exec ''adb start-server'' (fst (shell c (trace t) ''adb start-server''))]"
  by (simp add: tryAdbRestart_def exec_eq)

lemma trace_after_attempt:
  "trace (tryAdbRestart c (snd (startOrHealAndroid c (attemptStart c s k)))) =
     trace (attemptStart c s k) @ attemptEvents c s k @ [restartEvent c s k]"
  using trace_startOrHealAndroid[of c "attemptStart c s k"]
  by (simp add: trace_tryAdbRestart attemptEvents_def restartEvent_def)

lemma trace_attemptStart:
  "k \<le> r \<Longrightarrow> trace (attemptStart c s k) = trace s @ concat (map (attemptBlock c s r) [0..<k])"
proof (induction k)
  case 0
  show ?case by simp
next
  case (Suc k)
  then have ih: "trace (attemptStart c s k) = trace s @ concat (map (attemptBlock c s r) [0..<k])"
    and lt: "k < r" by simp_all
  have "trace (attemptStart c s (Suc k)) =
        trace (attemptStart c s k) @ attemptEvents c s k @ [restartEvent c s k] @ [Sleep (1500 * (int k + 1))]"
    using trace_after_attempt[of c s k] by (simp add: sleep_def)
  also have "\<dots> = trace (attemptStart c s k) @ attemptBlock c s r k"
    using lt by (simp add: attemptBlock_def)
  finally show ?case by (simp add: ih)
qed

text \<open>
  Claim C1. With retry count \<open>r\<close>, when each of the attempts number 0 to \<open>r\<close> of the
  start-or-heal sequence fails, \<^const>\<open>ensureAndroidReadyWithRetry\<close> makes exactly these
  \<open>r + 1\<close> attempts and raises the error of the last one. What it adds to the trace is,
  for each attempt in turn, the events of the attempt, the restart of the adb server and,
  except after the last attempt, a sleep of \<open>1500 * (k + 1)\<close> ms for attempt number
  \<open>k\<close>: a strictly increasing delay.
\<close>

theorem ensureReady_exhausts_retries:
  assumes "emulatorRetries c = int r"
      and "\<forall>k\<le>r. attemptFails c s k"
  shows "ensureAndroidReadyWithRetry c s =
           (Inl (projl (fst (startOrHealAndroid c (attemptStart c s r)))),
            tryAdbRestart c (snd (startOrHealAndroid c (attemptStart c s r))))
       \<and> trace (snd (ensureAndroidReadyWithRetry c s)) =
           trace s @ concat (map (attemptBlock c s r) [0..<Suc r])
       \<and> (\<forall>k<r. attemptStart c s (Suc k) =
             sleep (1500 * (int k + 1)) (tryAdbRestart c (snd (startOrHealAndroid c (attemptStart c s k))))
           \<and> 1500 * (int k + 1) < 1500 * (int (Suc k) + 1))"
proof -
  have 1: "ensureAndroidReadyWithRetry c s =
           (Inl (projl (fst (startOrHealAndroid c (attemptStart c s r)))),
            tryAdbRestart c (snd (startOrHealAndroid c (attemptStart c s r))))"
    using ensureAndroidReadyFrom_exhaust[OF assms(2), of 0]
    by (simp add: ensureAndroidReadyWithRetry_def assms(1))
  have "trace (tryAdbRestart c (snd (startOrHealAndroid c (attemptStart c s r)))) =
        trace (attemptStart c s r) @ attemptBlock c s r r"
    using trace_after_attempt[of c s r] by (simp add: attemptBlock_def)
  then have 2: "trace (snd (ensureAndroidReadyWithRetry c s)) =
                trace s @ concat (map (attemptBlock c s r) [0..<Suc r])"
    using trace_attemptStart[of r r c s] by (simp add: 1)
  from 1 2 show ?thesis by simp
qed

theorem ensureReady_exhausts_retries_witness:
  "emulatorRetries (androidContext (Some ''Pixel_6_API_34'') deadShell) = int 2
   \<and> attemptFails (androidContext (Some ''Pixel_6_API_34'') deadShell) (newService 0) 0
   \<and> attemptFails (androidContext (Some ''Pixel_6_API_34'') deadShell) (newService 0) 1
   \<and> attemptFails (androidContext (Some ''Pixel_6_API_34'') deadShell) (newService 0) 2
   \<and> ensureAndroidReadyWithRetry (androidContext (Some ''Pixel_6_API_34'') deadShell) (newService 0) =
       (Inl (Error ''error: closed''),
        \<lparr>androidSerial = None, iosUdid = None, started = False,
          trace = [Exec ''adb devices'' (Inl ''error: closed''),
                   Exec ''adb start-server'' (Inl ''error: closed''), Sleep 1500,
                   Exec ''adb devices'' (Inl ''error: closed''),
                   Exec ''adb start-server'' (Inl ''error: closed''), Sleep 3000,
                   Exec ''adb devices'' (Inl ''error: closed''),
                   Exec ''adb start-server'' (Inl ''error: closed'')],
          now = 4530\<rparr>)"
proof -
  let ?c = "androidContext (Some ''Pixel_6_API_34'') deadShell"
  have h1: "emulatorRetries ?c = int 2"
    by (simp add: emulatorRetries_def androidContext_def)
  have h2: "\<forall>k\<le>2. attemptFails ?c (newService 0) k"
    by (simp add: attemptFails_def dead_attempt)
  have sh: "shell ?c = deadShell" by (simp add: androidContext_def)
  have h3: "attemptFails ?c (newService 0) 0 \<and> attemptFails ?c (newService 0) 1
            \<and> attemptFails ?c (newService 0) 2"
    using h2 by simp
  show ?thesis
    using ensureReady_exhausts_retries[OF h1 h2, THEN conjunct1] h1 h3
    by (simp add: numeral_2_eq_2 dead_attempt tryAdbRestart_def exec_def sh deadShell_def
        sleep_def newService_def settle_def)
qed

end
